(* ===== verification/Owen_Prelude.thy ===== *)
theory Owen_Prelude
  imports Main "HOL-Library.Word" "HOL-Library.Signed_Division" "HOL-Library.Multiset"
begin

text \<open>
  Shared vocabulary of the Owen development: the type of X window handles, the
  collections of simplification rules the component theories extend, and generic
  lemmas on association lists and list updates that the client registry proofs share.
  An X window handle (an XID, C type \<open>Window\<close>) is opaque to the window manager: it
  is only compared and passed back to the server, never computed with, so it is a
  \<open>nat\<close>; the value \<open>0\<close> is X's \<open>None\<close>, which is also what the C++
  \<open>std::unordered_map::operator[]\<close> inserts for a missing key.
\<close>

unbundle bit_operations_syntax

type_synonym window = nat

abbreviation (input) NoWindow :: window where
  "NoWindow \<equiv> 0"

text \<open>
  The ways the window manager's process ends other than by an external signal, and the
  undefined behaviour of the C implementation, each as a value: the handlers of both
  implementations return \<open>wm_error + 'state\<close>, \<open>Inl\<close> for the abort.
  \<^item> \<open>ClientsOverflow\<close>: \<open>owen.c\<close> writes \<open>clients[client_count]\<close> past the end of its
    256-entry array;
  \<^item> \<open>ClientIndexOutOfRange\<close>: \<open>owen.c\<close> reads \<open>clients[-1]\<close>;
  \<^item> \<open>UninitialisedAttributes\<close>: \<open>owen.c\<close> reads the attributes of a failed
    \<open>XGetWindowAttributes\<close>, \<open>UninitialisedQueryTree\<close> the result of a failed
    \<open>XQueryTree\<close>;
  \<^item> \<open>CheckFailed\<close>: a glog \<open>CHECK\<close> of \<open>owen.cpp\<close> fails and aborts;
  \<^item> \<open>UninitialisedRead\<close>: \<open>owen.cpp\<close> reads an \<open>int\<close> that was never written
    (a drag field before the first press, or the outputs of a failed \<open>XGetGeometry\<close>);
  \<^item> \<open>SignedOverflow\<close>: a C++ \<open>int\<close> addition or subtraction leaves the 32-bit range;
  \<^item> \<open>DisplayOpenFailed\<close>, \<open>AnotherWMDetected\<close>: startup exits with a nonzero status.
\<close>

datatype wm_error =
    ClientsOverflow
  | ClientIndexOutOfRange
  | UninitialisedAttributes
  | UninitialisedQueryTree
  | CheckFailed
  | UninitialisedRead
  | SignedOverflow
  | DisplayOpenFailed
  | AnotherWMDetected

named_theorems registry_simps "characteristic equations of the client registry operations"
named_theorems xserver_simps "characteristic equations of the display gateway operations"

subsection \<open>Lists and association lists\<close>

lemma map_of_remove_key:
  assumes "distinct (map fst xs)" "distinct (map fst ys)" "set ys = {p \<in> set xs. fst p \<noteq> k}"
  shows "map_of ys = (map_of xs)(k := None)"
proof
  fix x
  show "map_of ys x = ((map_of xs)(k := None)) x"
  proof (cases "x = k")
    case True
    with assms(3) show ?thesis by (auto simp: map_of_eq_None_iff)
  next
    case False
    have "map_of ys x = Some v \<longleftrightarrow> map_of xs x = Some v" for v
      using assms False by simp
    then show ?thesis using False by (cases "map_of xs x") auto
  qed
qed

lemma mset_butlast_update_last:
  assumes "j < length xs"
  shows "mset (butlast (xs[j := last xs])) = mset xs - {#xs ! j#}"
proof -
  have ne: "xs \<noteq> []" using assms by auto
  have "mset (xs[j := last xs]) = add_mset (last xs) (mset xs - {#xs ! j#})"
    using assms by (simp add: mset_update)
  moreover have "last (xs[j := last xs]) = last xs"
    using assms ne by (cases "j = length xs - 1") (auto simp: last_conv_nth nth_list_update)
  moreover have "mset (butlast ys) = mset ys - {#last ys#}" if "ys \<noteq> []" for ys :: "'a list"
    using that by (metis add_mset_remove_trivial append_butlast_last_id mset_append mset_single_iff union_mset_add_mset_right add_mset_add_single)
  ultimately show ?thesis using ne by (metis list_update_nonempty add_mset_remove_trivial)
qed

lemma butlast_update_last_remove:
  assumes "distinct (map f xs)" "j < length xs"
  shows "distinct (map f (butlast (xs[j := last xs])))"
    and "set (butlast (xs[j := last xs])) = set xs - {xs ! j}"
proof -
  have m: "mset (butlast (xs[j := last xs])) = mset (remove1 (xs ! j) xs)"
    using mset_butlast_update_last [OF assms(2)] by simp
  have d: "distinct xs" and inj: "inj_on f (set xs)"
    using assms(1) by (simp_all add: distinct_map)
  have "distinct (map f (remove1 (xs ! j) xs))"
    using d inj by (simp add: distinct_map inj_on_diff)
  moreover have "mset (map f (butlast (xs[j := last xs]))) = mset (map f (remove1 (xs ! j) xs))"
    using m by simp
  ultimately show "distinct (map f (butlast (xs[j := last xs])))"
    using mset_eq_imp_distinct_iff by blast
  show "set (butlast (xs[j := last xs])) = set xs - {xs ! j}"
    using mset_eq_setD [OF m] d by simp
qed

lemma length_takeWhile_less:
  "x \<in> set xs \<Longrightarrow> \<not> P x \<Longrightarrow> length (takeWhile P xs) < length xs"
  by (induction xs) auto

subsection \<open>Partial maps as bijections\<close>

lemma inj_on_dom_upd:
  assumes "m w = None" "v \<notin> ran m" "inj_on m (dom m)"
  shows "inj_on (m(w \<mapsto> v)) (dom (m(w \<mapsto> v)))"
  using assms by (auto simp: inj_on_def ran_def)

lemma inj_on_dom_remove:
  "inj_on m (dom m) \<Longrightarrow> inj_on (m(w := None)) (dom (m(w := None)))"
  by (auto simp: inj_on_def)

lemma ran_remove_inj:
  assumes "inj_on m (dom m)" "m w = Some f"
  shows "ran (m(w := None)) = ran m - {f}"
proof (rule set_eqI)
  fix x
  show "x \<in> ran (m(w := None)) \<longleftrightarrow> x \<in> ran m - {f}"
  proof
    assume "x \<in> ran (m(w := None))"
    then obtain a where a: "a \<noteq> w" "m a = Some x"
      by (auto simp: ran_def split: if_splits)
    then have "x \<noteq> f"
      using assms inj_onD [OF assms(1), of a w] by auto
    then show "x \<in> ran m - {f}"
      using a by (auto simp: ran_def)
  next
    assume "x \<in> ran m - {f}"
    then obtain a where "m a = Some x" "x \<noteq> f"
      by (auto simp: ran_def)
    then show "x \<in> ran (m(w := None))"
      using assms(2) by (auto simp: ran_def intro!: exI [of _ a])
  qed
qed

end
