(* ===== verification/XServer.thy ===== *)
theory XServer
  imports Owen_Prelude
begin

text \<open>
  The display gateway: the part of the X server and of Xlib that the window manager
  calls (spec section 6). It is not code of the repository but its environment, so it is
  modelled from the contract the spec gives, only as far as the window manager's
  correctness depends on it:
  \<^item> a window table (parent, geometry, border, mapped flag, override-redirect flag,
    selected event mask), the stacking order of all windows (bottom first), the save set,
    the next free resource id, the windows the connection created, the server grab flag
    and whether another client already holds substructure redirection on the root;
  \<^item> the protocol errors a request produces, queued until \<open>XSync\<close> hands them to the
    error handler the client installed (a callback into the window manager's state);
  \<^item> the log of every request the window manager sent, in order, so that the order of
    calls inside a handler is part of the model;
  \<^item> the close-down of the connection (\<open>XCloseDisplay\<close>, or the client's death): the
    save-set processing and the destruction of the windows the connection created.
  Events are not generated here: the event queue is the environment's input to the
  dispatcher, and every theorem about the dispatcher holds for any event sequence
  (or states the assumption it makes about one).
  Window depth is at most two in every state the window manager creates (root, frame,
  client), so viewability looks at the parent only.
\<close>

datatype XMapState = IsUnmapped | IsUnviewable | IsViewable

datatype XErrorCode = BadWindow | BadAccess

record XErrorEvent =
  error_code :: XErrorCode
  resourceid :: window

record XWin =
  xw_parent :: window
  xw_x :: int
  xw_y :: int
  xw_width :: int
  xw_height :: int
  xw_border_width :: int
  xw_mapped :: bool
  xw_override_redirect :: bool
  xw_event_mask :: "64 word"

text \<open>\<open>XWindowChanges\<close> of Xlib, the argument of \<open>XConfigureWindow\<close>.\<close>

record XWindowChanges =
  wc_x :: int
  wc_y :: int
  wc_width :: int
  wc_height :: int
  wc_border_width :: int
  wc_sibling :: window
  wc_stack_mode :: int

text \<open>\<open>XWindowAttributes\<close>, as far as the window manager reads it.\<close>

record XWindowAttributes =
  wa_x :: int
  wa_y :: int
  wa_width :: int
  wa_height :: int
  wa_border_width :: int
  wa_override_redirect :: bool
  wa_map_state :: XMapState

datatype XRequest =
    ReqCreateWindow window window int int int int int nat nat
  | ReqSelectInput window "64 word"
  | ReqGrabButton window
  | ReqAddToSaveSet window
  | ReqRemoveFromSaveSet window
  | ReqReparent window window int int
  | ReqMap window
  | ReqUnmap window
  | ReqDestroy window
  | ReqConfigure window "64 word" XWindowChanges
  | ReqMove window int int
  | ReqRaise window
  | ReqGetAttributes window
  | ReqGetGeometry window
  | ReqQueryTree window
  | ReqGrabServer
  | ReqUngrabServer
  | ReqSync
  | ReqCloseDisplay

text \<open>\<open>xs_owned\<close>: the windows the window manager's connection created and that still
  exist; they are destroyed when the connection closes.\<close>

record XServer =
  xs_root :: window
  xs_default_screen :: int
  xs_display_width :: int
  xs_display_height :: int
  xs_windows :: "window \<rightharpoonup> XWin"
  xs_stack :: "window list"
  xs_save_set :: "window set"
  xs_owned :: "window set"
  xs_next_id :: window
  xs_grabbed :: bool
  xs_other_wm :: bool
  xs_pending_errors :: "XErrorEvent list"
  xs_requests :: "XRequest list"

subsection \<open>Events\<close>

text \<open>
  The events the dispatchers read from \<open>XNextEvent\<close>, with the fields they use:
  \<open>XConfigureRequestEvent\<close>, \<open>XUnmapEvent\<close> (\<open>event\<close> is the window the
  notification was reported on, \<open>window\<close> the unmapped one), \<open>XButtonEvent\<close> and
  \<open>XMotionEvent\<close> (root coordinates, modifier and button state), and the kinds the
  dispatchers ignore.
\<close>

record XConfigureRequestEvent =
  cr_window :: window
  cr_x :: int
  cr_y :: int
  cr_width :: int
  cr_height :: int
  cr_border_width :: int
  cr_above :: window
  cr_detail :: int
  cr_value_mask :: "64 word"

record XUnmapEvent =
  ue_event :: window
  ue_window :: window

record XButtonEvent =
  be_window :: window
  be_x_root :: int
  be_y_root :: int

record XMotionEvent =
  me_window :: window
  me_x_root :: int
  me_y_root :: int
  me_state :: "32 word"

datatype XEvent =
    MapRequest window
  | ConfigureRequest XConfigureRequestEvent
  | UnmapNotify XUnmapEvent
  | ButtonPress XButtonEvent
  | MotionNotify XMotionEvent
  | CreateNotify window
  | DestroyNotify window
  | ReparentNotify window
  | MapNotify window
  | ConfigureNotify window
  | OtherEvent nat

subsection \<open>Event masks and configure value-mask bits (X.h)\<close>

definition ButtonPressMask :: "64 word" where
  "ButtonPressMask = push_bit 2 1"

definition ButtonReleaseMask :: "64 word" where
  "ButtonReleaseMask = push_bit 3 1"

definition ButtonMotionMask :: "64 word" where
  "ButtonMotionMask = push_bit 13 1"

definition SubstructureNotifyMask :: "64 word" where
  "SubstructureNotifyMask = push_bit 19 1"

definition SubstructureRedirectMask :: "64 word" where
  "SubstructureRedirectMask = push_bit 20 1"

definition CWX :: nat where "CWX = 0"
definition CWY :: nat where "CWY = 1"
definition CWWidth :: nat where "CWWidth = 2"
definition CWHeight :: nat where "CWHeight = 3"
definition CWBorderWidth :: nat where "CWBorderWidth = 4"

lemmas x_mask_defs = ButtonPressMask_def ButtonReleaseMask_def ButtonMotionMask_def
  SubstructureNotifyMask_def SubstructureRedirectMask_def
  CWX_def CWY_def CWWidth_def CWHeight_def CWBorderWidth_def

subsection \<open>Bookkeeping\<close>

definition x_log :: "XRequest \<Rightarrow> XServer \<Rightarrow> XServer" where
  "x_log r xs = xs\<lparr>xs_requests := xs_requests xs @ [r]\<rparr>"

definition x_error :: "XErrorCode \<Rightarrow> window \<Rightarrow> XServer \<Rightarrow> XServer" where
  "x_error c w xs =
     xs\<lparr>xs_pending_errors := xs_pending_errors xs @ [\<lparr>error_code = c, resourceid = w\<rparr>]\<rparr>"

definition x_exists :: "XServer \<Rightarrow> window \<Rightarrow> bool" where
  "x_exists xs w \<longleftrightarrow> xs_windows xs w \<noteq> None"

text \<open>Apply \<open>f\<close> to an existing window, or queue \<open>BadWindow\<close>.\<close>

definition x_update_win :: "window \<Rightarrow> (XWin \<Rightarrow> XWin) \<Rightarrow> XServer \<Rightarrow> XServer" where
  "x_update_win w f xs =
     (case xs_windows xs w of
        None \<Rightarrow> x_error BadWindow w xs
      | Some v \<Rightarrow> xs\<lparr>xs_windows := (xs_windows xs)(w \<mapsto> f v)\<rparr>)"

subsection \<open>Requests\<close>

text \<open>
  Each operation logs its request and either changes the window table or queues the
  protocol error the server would report. None of them fails in the window manager's
  process: errors reach it only through the error handler, at \<open>XSync\<close>.
\<close>

definition x_create_simple_window ::
  "window \<Rightarrow> int \<Rightarrow> int \<Rightarrow> int \<Rightarrow> int \<Rightarrow> int \<Rightarrow> nat \<Rightarrow> nat \<Rightarrow> XServer \<Rightarrow> window \<times> XServer" where
  "x_create_simple_window p x y w h bw bc bg xs =
     (let fresh = xs_next_id xs;
          xs1 = x_log (ReqCreateWindow fresh p x y w h bw bc bg) xs\<lparr>xs_next_id := Suc fresh\<rparr>
      in if x_exists xs p
         then (fresh, xs1\<lparr>xs_windows := (xs_windows xs1)(fresh \<mapsto>
                 \<lparr>xw_parent = p, xw_x = x, xw_y = y, xw_width = w, xw_height = h,
                  xw_border_width = bw, xw_mapped = False, xw_override_redirect = False,
                  xw_event_mask = 0\<rparr>),
                 xs_stack := xs_stack xs1 @ [fresh], xs_owned := insert fresh (xs_owned xs1)\<rparr>)
         else (fresh, x_error BadWindow p xs1))"

text \<open>
  Selecting substructure redirection on the root fails with \<open>BadAccess\<close> when another
  client (a running window manager) already holds it; the request then has no effect.
\<close>

definition x_select_input :: "window \<Rightarrow> 64 word \<Rightarrow> XServer \<Rightarrow> XServer" where
  "x_select_input w m xs =
     (let xs1 = x_log (ReqSelectInput w m) xs
      in if w = xs_root xs \<and> xs_other_wm xs \<and> m AND SubstructureRedirectMask \<noteq> 0
         then x_error BadAccess w xs1
         else x_update_win w (\<lambda>v. v\<lparr>xw_event_mask := m\<rparr>) xs1)"

definition x_grab_button :: "window \<Rightarrow> XServer \<Rightarrow> XServer" where
  "x_grab_button w xs =
     (let xs1 = x_log (ReqGrabButton w) xs
      in if x_exists xs w then xs1 else x_error BadWindow w xs1)"

definition x_add_to_save_set :: "window \<Rightarrow> XServer \<Rightarrow> XServer" where
  "x_add_to_save_set w xs =
     (let xs1 = x_log (ReqAddToSaveSet w) xs
      in if x_exists xs w then xs1\<lparr>xs_save_set := insert w (xs_save_set xs)\<rparr>
         else x_error BadWindow w xs1)"

definition x_remove_from_save_set :: "window \<Rightarrow> XServer \<Rightarrow> XServer" where
  "x_remove_from_save_set w xs =
     (let xs1 = x_log (ReqRemoveFromSaveSet w) xs
      in if x_exists xs w then xs1\<lparr>xs_save_set := xs_save_set xs - {w}\<rparr>
         else x_error BadWindow w xs1)"

definition x_reparent_window :: "window \<Rightarrow> window \<Rightarrow> int \<Rightarrow> int \<Rightarrow> XServer \<Rightarrow> XServer" where
  "x_reparent_window w p x y xs =
     (let xs1 = x_log (ReqReparent w p x y) xs
      in if x_exists xs p
         then x_update_win w (\<lambda>v. v\<lparr>xw_parent := p, xw_x := x, xw_y := y\<rparr>) xs1
         else x_error BadWindow p xs1)"

definition x_map_window :: "window \<Rightarrow> XServer \<Rightarrow> XServer" where
  "x_map_window w xs = x_update_win w (\<lambda>v. v\<lparr>xw_mapped := True\<rparr>) (x_log (ReqMap w) xs)"

definition x_unmap_window :: "window \<Rightarrow> XServer \<Rightarrow> XServer" where
  "x_unmap_window w xs = x_update_win w (\<lambda>v. v\<lparr>xw_mapped := False\<rparr>) (x_log (ReqUnmap w) xs)"

text \<open>
  Destroying a window destroys its children too and drops both from the save set
  (depth is at most two, so the children are all its inferiors). The root cannot be
  destroyed.
\<close>

definition x_doomed :: "XServer \<Rightarrow> window \<Rightarrow> window \<Rightarrow> bool" where
  "x_doomed xs w v \<longleftrightarrow> v = w \<or> (case xs_windows xs v of Some u \<Rightarrow> xw_parent u = w | None \<Rightarrow> False)"

definition x_destroy_window :: "window \<Rightarrow> XServer \<Rightarrow> XServer" where
  "x_destroy_window w xs =
     (let xs1 = x_log (ReqDestroy w) xs
      in if x_exists xs w \<and> w \<noteq> xs_root xs
         then xs1\<lparr>xs_windows := (\<lambda>v. if x_doomed xs w v then None else xs_windows xs v),
                  xs_stack := filter (\<lambda>v. \<not> x_doomed xs w v) (xs_stack xs),
                  xs_save_set := {v \<in> xs_save_set xs. \<not> x_doomed xs w v},
                  xs_owned := {v \<in> xs_owned xs. \<not> x_doomed xs w v}\<rparr>
         else x_error BadWindow w xs1)"

text \<open>\<open>XConfigureWindow\<close>: only the fields whose bit is set in the value mask change.\<close>

definition x_apply_changes :: "64 word \<Rightarrow> XWindowChanges \<Rightarrow> XWin \<Rightarrow> XWin" where
  "x_apply_changes m c v =
     v\<lparr>xw_x := (if bit m CWX then wc_x c else xw_x v),
       xw_y := (if bit m CWY then wc_y c else xw_y v),
       xw_width := (if bit m CWWidth then wc_width c else xw_width v),
       xw_height := (if bit m CWHeight then wc_height c else xw_height v),
       xw_border_width := (if bit m CWBorderWidth then wc_border_width c else xw_border_width v)\<rparr>"

definition x_configure_window :: "window \<Rightarrow> 64 word \<Rightarrow> XWindowChanges \<Rightarrow> XServer \<Rightarrow> XServer" where
  "x_configure_window w m c xs = x_update_win w (x_apply_changes m c) (x_log (ReqConfigure w m c) xs)"

definition x_move_window :: "window \<Rightarrow> int \<Rightarrow> int \<Rightarrow> XServer \<Rightarrow> XServer" where
  "x_move_window w x y xs = x_update_win w (\<lambda>v. v\<lparr>xw_x := x, xw_y := y\<rparr>) (x_log (ReqMove w x y) xs)"

definition x_raise_window :: "window \<Rightarrow> XServer \<Rightarrow> XServer" where
  "x_raise_window w xs =
     (let xs1 = x_log (ReqRaise w) xs
      in if x_exists xs w then xs1\<lparr>xs_stack := filter (\<lambda>v. v \<noteq> w) (xs_stack xs) @ [w]\<rparr>
         else x_error BadWindow w xs1)"

definition x_grab_server :: "XServer \<Rightarrow> XServer" where
  "x_grab_server xs = (x_log ReqGrabServer xs)\<lparr>xs_grabbed := True\<rparr>"

definition x_ungrab_server :: "XServer \<Rightarrow> XServer" where
  "x_ungrab_server xs = (x_log ReqUngrabServer xs)\<lparr>xs_grabbed := False\<rparr>"

subsection \<open>Queries\<close>

definition x_map_state :: "XServer \<Rightarrow> XWin \<Rightarrow> XMapState" where
  "x_map_state xs v =
     (if \<not> xw_mapped v then IsUnmapped
      else if xw_parent v = xs_root xs then IsViewable
      else case xs_windows xs (xw_parent v) of
             Some p \<Rightarrow> if xw_mapped p \<and> xw_parent p = xs_root xs then IsViewable else IsUnviewable
           | None \<Rightarrow> IsUnviewable)"

text \<open>\<open>XGetWindowAttributes\<close>: \<open>None\<close> is a zero status (and a queued \<open>BadWindow\<close>).\<close>

definition x_get_window_attributes :: "window \<Rightarrow> XServer \<Rightarrow> XWindowAttributes option \<times> XServer" where
  "x_get_window_attributes w xs =
     (let xs1 = x_log (ReqGetAttributes w) xs
      in case xs_windows xs w of
           None \<Rightarrow> (None, x_error BadWindow w xs1)
         | Some v \<Rightarrow> (Some \<lparr>wa_x = xw_x v, wa_y = xw_y v, wa_width = xw_width v,
                       wa_height = xw_height v, wa_border_width = xw_border_width v,
                       wa_override_redirect = xw_override_redirect v,
                       wa_map_state = x_map_state xs v\<rparr>, xs1))"

text \<open>\<open>XGetGeometry\<close>: position, width, height, border width.\<close>

definition x_get_geometry :: "window \<Rightarrow> XServer \<Rightarrow> (int \<times> int \<times> int \<times> int \<times> int) option \<times> XServer" where
  "x_get_geometry w xs =
     (let xs1 = x_log (ReqGetGeometry w) xs
      in case xs_windows xs w of
           None \<Rightarrow> (None, x_error BadWindow w xs1)
         | Some v \<Rightarrow> (Some (xw_x v, xw_y v, xw_width v, xw_height v, xw_border_width v), xs1))"

text \<open>\<open>XQueryTree\<close> on a window: its children, bottom of the stacking order first.\<close>

definition x_query_tree :: "window \<Rightarrow> XServer \<Rightarrow> window list option \<times> XServer" where
  "x_query_tree w xs =
     (let xs1 = x_log (ReqQueryTree w) xs
      in if x_exists xs w
         then (Some (filter (\<lambda>v. case xs_windows xs v of Some u \<Rightarrow> xw_parent u = w | None \<Rightarrow> False)
                       (xs_stack xs)), xs1)
         else (None, x_error BadWindow w xs1))"

text \<open>
  \<open>XSync\<close>: every queued protocol error is handed, in order, to the error handler the
  client installed. The handler is a callback on the client's own state \<open>'s\<close>; that is
  the interface through which the startup guard observes a rival window manager.
\<close>

definition x_sync :: "('s \<Rightarrow> XErrorEvent \<Rightarrow> 's) \<Rightarrow> 's \<Rightarrow> XServer \<Rightarrow> 's \<times> XServer" where
  "x_sync handler st xs =
     (fold (\<lambda>e s. handler s e) (xs_pending_errors xs) st,
      (x_log ReqSync xs)\<lparr>xs_pending_errors := []\<rparr>)"

text \<open>
  \<open>XCloseDisplay\<close>, and equally the end of the window manager's process, closes its
  connection. The server then (X protocol, connection close-down, with the default
  close-down mode \<open>DestroyAll\<close>) first takes every window of the connection's save set
  whose parent the connection created out of it: the window goes to that parent's own
  parent, the closest ancestor the connection did not create when created windows are
  children of windows it did not create (frames are children of the root), keeps its
  absolute position and is mapped. It then destroys every window the connection
  created, with the windows still inside them, releases a server grab and forgets the
  save set.
\<close>

definition x_save_set_restore :: "XServer \<Rightarrow> window \<Rightarrow> XWin \<Rightarrow> XWin" where
  "x_save_set_restore xs v u =
     (if v \<in> xs_save_set xs \<and> xw_parent u \<in> xs_owned xs
      then (case xs_windows xs (xw_parent u) of
              Some p \<Rightarrow> u\<lparr>xw_parent := xw_parent p, xw_x := xw_x p + xw_border_width p + xw_x u,
                          xw_y := xw_y p + xw_border_width p + xw_y u, xw_mapped := True\<rparr>
            | None \<Rightarrow> u)
      else u)"

definition x_close_display :: "XServer \<Rightarrow> XServer" where
  "x_close_display xs =
     (let ws = (\<lambda>v. map_option (x_save_set_restore xs v) (xs_windows xs v));
          gone = (\<lambda>v. v \<in> xs_owned xs \<or>
                      (case ws v of Some u \<Rightarrow> xw_parent u \<in> xs_owned xs | None \<Rightarrow> False))
      in (x_log ReqCloseDisplay xs)\<lparr>xs_windows := (\<lambda>v. if gone v then None else ws v),
           xs_stack := filter (\<lambda>v. \<not> gone v) (xs_stack xs), xs_save_set := {}, xs_owned := {},
           xs_grabbed := False\<rparr>)"

lemmas x_request_defs = x_create_simple_window_def x_select_input_def x_grab_button_def
  x_add_to_save_set_def x_remove_from_save_set_def x_reparent_window_def x_map_window_def
  x_unmap_window_def x_destroy_window_def x_configure_window_def x_move_window_def
  x_raise_window_def x_grab_server_def x_ungrab_server_def x_get_window_attributes_def
  x_get_geometry_def x_query_tree_def x_sync_def

subsection \<open>Well-formedness and the window tree\<close>

text \<open>
  \<open>x_parent_of xs\<close> is the window tree as a map from each existing window to its
  parent. A well-formed server has its root, whose parent is \<open>None\<close> (the id \<open>0\<close>,
  never a window), and only allocated ids in its table.
  \<open>x_same_tree xs xs'\<close>: the same tree, root and id allocator. Every request but
  creation, reparenting and destruction keeps it; these three get exact lemmas.
\<close>

definition x_parent_of :: "XServer \<Rightarrow> window \<rightharpoonup> window" where
  "x_parent_of xs v = map_option xw_parent (xs_windows xs v)"

definition xs_wf :: "XServer \<Rightarrow> bool" where
  "xs_wf xs \<longleftrightarrow>
     x_parent_of xs (xs_root xs) = Some 0 \<and> \<not> x_exists xs 0 \<and>
     (\<forall>w. x_exists xs w \<longrightarrow> w < xs_next_id xs) \<and>
     (\<forall>w p. x_parent_of xs w = Some p \<longrightarrow> p < xs_next_id xs)"

definition x_same_tree :: "XServer \<Rightarrow> XServer \<Rightarrow> bool" where
  "x_same_tree xs xs' \<longleftrightarrow>
     x_parent_of xs' = x_parent_of xs \<and> xs_root xs' = xs_root xs \<and> xs_next_id xs' = xs_next_id xs"

lemmas x_unfold = x_request_defs x_log_def x_error_def x_exists_def x_update_win_def

lemma x_exists_parent_of: "x_exists xs v \<longleftrightarrow> x_parent_of xs v \<noteq> None"
  by (simp add: x_exists_def x_parent_of_def)

lemma x_same_tree_refl [intro, simp]: "x_same_tree xs xs"
  by (simp add: x_same_tree_def)

lemma x_same_tree_trans [trans]: "x_same_tree xs ys \<Longrightarrow> x_same_tree ys zs \<Longrightarrow> x_same_tree xs zs"
  by (simp add: x_same_tree_def)

lemma x_same_tree_parent: "x_same_tree xs xs' \<Longrightarrow> x_parent_of xs' = x_parent_of xs"
  and x_same_tree_root: "x_same_tree xs xs' \<Longrightarrow> xs_root xs' = xs_root xs"
  and x_same_tree_next: "x_same_tree xs xs' \<Longrightarrow> xs_next_id xs' = xs_next_id xs"
  by (simp_all add: x_same_tree_def)

lemma x_same_tree_ops [xserver_simps]:
  "x_same_tree xs (x_select_input w m xs)"
  "x_same_tree xs (x_grab_button w xs)"
  "x_same_tree xs (x_add_to_save_set w xs)"
  "x_same_tree xs (x_remove_from_save_set w xs)"
  "x_same_tree xs (x_map_window w xs)"
  "x_same_tree xs (x_unmap_window w xs)"
  "x_same_tree xs (x_configure_window w m c xs)"
  "x_same_tree xs (x_move_window w x y xs)"
  "x_same_tree xs (x_raise_window w xs)"
  "x_same_tree xs (x_grab_server xs)"
  "x_same_tree xs (x_ungrab_server xs)"
  "x_same_tree xs (snd (x_get_window_attributes w xs))"
  "x_same_tree xs (snd (x_get_geometry w xs))"
  "x_same_tree xs (snd (x_query_tree w xs))"
  "x_same_tree xs (snd (x_sync h st xs))"
  by (auto simp: x_unfold x_apply_changes_def x_same_tree_def x_parent_of_def fun_eq_iff Let_def
           split: option.splits)

lemmas x_parent_of_ops [simp] = x_same_tree_ops [THEN x_same_tree_parent]
  and x_root_ops [simp] = x_same_tree_ops [THEN x_same_tree_root]
  and x_next_id_ops [simp] = x_same_tree_ops [THEN x_same_tree_next]

lemma x_same_tree_exists: "x_same_tree xs xs' \<Longrightarrow> x_exists xs' v = x_exists xs v"
  by (simp add: x_exists_parent_of x_same_tree_def)

lemma x_same_tree_wf: "x_same_tree xs xs' \<Longrightarrow> xs_wf xs' = xs_wf xs"
  by (simp add: xs_wf_def x_same_tree_exists) (simp add: x_same_tree_def)

lemma xs_wf_exists_nonzero: "xs_wf xs \<Longrightarrow> x_exists xs v \<Longrightarrow> v \<noteq> 0"
  by (cases "v = 0") (simp_all add: xs_wf_def)

lemma xs_wf_root_exists: "xs_wf xs \<Longrightarrow> x_exists xs (xs_root xs)"
  by (simp add: xs_wf_def x_exists_parent_of)

lemma x_create_simple_window_id [xserver_simps]:
  "fst (x_create_simple_window p x y w h bw bc bg xs) = xs_next_id xs"
  by (simp add: x_create_simple_window_def Let_def)

lemma x_create_simple_window_tree:
  assumes "x_exists xs p"
  shows "x_parent_of (snd (x_create_simple_window p x y w h bw bc bg xs)) =
           (x_parent_of xs)(xs_next_id xs \<mapsto> p)"
    and "xs_root (snd (x_create_simple_window p x y w h bw bc bg xs)) = xs_root xs"
    and "xs_next_id (snd (x_create_simple_window p x y w h bw bc bg xs)) = Suc (xs_next_id xs)"
  using assms by (simp_all add: x_unfold x_parent_of_def Let_def fun_eq_iff)

lemma x_reparent_window_tree:
  assumes "x_exists xs p"
  shows "x_parent_of (x_reparent_window w p x y xs) =
           (if x_exists xs w then (x_parent_of xs)(w \<mapsto> p) else x_parent_of xs)"
    and "xs_root (x_reparent_window w p x y xs) = xs_root xs"
    and "xs_next_id (x_reparent_window w p x y xs) = xs_next_id xs"
  using assms by (auto simp: x_unfold x_parent_of_def Let_def fun_eq_iff split: option.splits)

lemma x_destroy_window_tree:
  assumes "x_exists xs w" "w \<noteq> xs_root xs"
  shows "x_parent_of (x_destroy_window w xs) =
           (\<lambda>v. if v = w \<or> x_parent_of xs v = Some w then None else x_parent_of xs v)"
    and "xs_root (x_destroy_window w xs) = xs_root xs"
    and "xs_next_id (x_destroy_window w xs) = xs_next_id xs"
  using assms by (auto simp: x_unfold x_doomed_def x_parent_of_def Let_def fun_eq_iff
                       split: option.splits)

text \<open>Selecting input and mapping keep window positions; a new window is created at
  the position requested.\<close>

lemma x_pos_ops:
  "map_option (\<lambda>u. (xw_x u, xw_y u)) (xs_windows (x_select_input w m xs) v) =
   map_option (\<lambda>u. (xw_x u, xw_y u)) (xs_windows xs v)"
  "map_option (\<lambda>u. (xw_x u, xw_y u)) (xs_windows (x_map_window w xs) v) =
   map_option (\<lambda>u. (xw_x u, xw_y u)) (xs_windows xs v)"
  by (auto simp: x_select_input_def x_map_window_def x_update_win_def x_log_def x_error_def Let_def
           split: option.splits)

lemma x_create_pos:
  "x_exists xs p \<Longrightarrow>
   map_option (\<lambda>u. (xw_x u, xw_y u)) (xs_windows (snd (x_create_simple_window p x y wd ht bw bc bg xs))
     (xs_next_id xs)) = Some (x, y)"
  by (simp add: x_create_simple_window_def x_log_def Let_def)

subsection \<open>The request log and the windows a request touches\<close>

text \<open>Every request is logged, whatever its outcome; each changes the window table at
  most at the window it names.\<close>

lemma x_requests_ops [xserver_simps]:
  "xs_requests (snd (x_create_simple_window p x y wd ht bw bc bg xs)) =
     xs_requests xs @ [ReqCreateWindow (xs_next_id xs) p x y wd ht bw bc bg]"
  "xs_requests (x_select_input w m xs) = xs_requests xs @ [ReqSelectInput w m]"
  "xs_requests (x_grab_button w xs) = xs_requests xs @ [ReqGrabButton w]"
  "xs_requests (x_add_to_save_set w xs) = xs_requests xs @ [ReqAddToSaveSet w]"
  "xs_requests (x_remove_from_save_set w xs) = xs_requests xs @ [ReqRemoveFromSaveSet w]"
  "xs_requests (x_reparent_window w p x y xs) = xs_requests xs @ [ReqReparent w p x y]"
  "xs_requests (x_map_window w xs) = xs_requests xs @ [ReqMap w]"
  "xs_requests (x_unmap_window w xs) = xs_requests xs @ [ReqUnmap w]"
  "xs_requests (x_destroy_window w xs) = xs_requests xs @ [ReqDestroy w]"
  "xs_requests (x_configure_window w m c xs) = xs_requests xs @ [ReqConfigure w m c]"
  "xs_requests (x_move_window w x y xs) = xs_requests xs @ [ReqMove w x y]"
  "xs_requests (x_raise_window w xs) = xs_requests xs @ [ReqRaise w]"
  "xs_requests (x_grab_server xs) = xs_requests xs @ [ReqGrabServer]"
  "xs_requests (x_ungrab_server xs) = xs_requests xs @ [ReqUngrabServer]"
  "xs_requests (snd (x_get_window_attributes w xs)) = xs_requests xs @ [ReqGetAttributes w]"
  "xs_requests (snd (x_get_geometry w xs)) = xs_requests xs @ [ReqGetGeometry w]"
  "xs_requests (snd (x_query_tree w xs)) = xs_requests xs @ [ReqQueryTree w]"
  "xs_requests (snd (x_sync h st xs)) = xs_requests xs @ [ReqSync]"
  by (simp_all add: x_unfold Let_def split: option.splits)

lemma x_windows_other [xserver_simps]:
  "v \<noteq> xs_next_id xs \<Longrightarrow> xs_windows (snd (x_create_simple_window p x y wd ht bw bc bg xs)) v = xs_windows xs v"
  "v \<noteq> w \<Longrightarrow> xs_windows (x_select_input w m xs) v = xs_windows xs v"
  "xs_windows (x_grab_button w xs) = xs_windows xs"
  "xs_windows (x_add_to_save_set w xs) = xs_windows xs"
  "xs_windows (x_remove_from_save_set w xs) = xs_windows xs"
  "v \<noteq> w \<Longrightarrow> xs_windows (x_reparent_window w p x y xs) v = xs_windows xs v"
  "v \<noteq> w \<Longrightarrow> xs_windows (x_map_window w xs) v = xs_windows xs v"
  "v \<noteq> w \<Longrightarrow> xs_windows (x_unmap_window w xs) v = xs_windows xs v"
  "v \<noteq> w \<Longrightarrow> xs_windows (x_configure_window w m c xs) v = xs_windows xs v"
  "v \<noteq> w \<Longrightarrow> xs_windows (x_move_window w x y xs) v = xs_windows xs v"
  "xs_windows (x_raise_window w xs) = xs_windows xs"
  "xs_windows (snd (x_get_window_attributes w xs)) = xs_windows xs"
  "xs_windows (snd (x_get_geometry w xs)) = xs_windows xs"
  by (auto simp: x_unfold Let_def split: option.splits)

end
