(* ===== verification/Registry_C.thy ===== *)
theory Registry_C
  imports Owen_Prelude
begin

text \<open>
  The client registry of \<open>src/owen.c\<close>: a fixed array of 256 \<open>Client\<close> records
  inside \<open>OwenScreen\<close>, of which the first \<open>client_count\<close> are live; insertion at the
  end (\<open>owen_clients_add\<close>), linear search (\<open>owen_clients_get_index\<close>, \<open>-1\<close> when
  absent) and deletion by moving the last live record into the hole
  (\<open>owen_clients_delete\<close>). The array is a list of length 256 updated by index; the
  C \<open>int\<close> count and index are \<open>int\<close> (they never come near overflow: the array bound
  is checked first). The abstraction \<open>registry_of\<close> reads the live prefix as the map
  client \<open>\<rightharpoonup>\<close> frame of spec section 4.1, and the lemmas show each operation implements
  the map operation, under the invariant \<open>owen_screen_wf\<close> (live clients distinct).
\<close>

record Client =
  win :: window
  frame :: window

record OwenScreen =
  index :: int
  height :: int
  width :: int
  client_count :: int
  clients :: "Client list"

definition CLIENTS_CAPACITY :: nat where
  "CLIENTS_CAPACITY = 256"

text \<open>The static, zero-initialised \<open>owen.screen\<close> of a fresh process.\<close>

definition owen_screen_zero :: OwenScreen where
  "owen_screen_zero = \<lparr>index = 0, height = 0, width = 0, client_count = 0,
     clients = replicate CLIENTS_CAPACITY \<lparr>win = 0, frame = 0\<rparr>\<rparr>"

text \<open>\<open>owen_clients_add\<close>: no capacity check in the source; the write past the end
  of the array is the error value.\<close>

definition owen_clients_add :: "window \<Rightarrow> window \<Rightarrow> OwenScreen \<Rightarrow> wm_error + OwenScreen" where
  "owen_clients_add w f scr =
     (let i = client_count scr
      in if 0 \<le> i \<and> nat i < length (clients scr)
         then Inr (scr\<lparr>clients := (clients scr)[nat i := \<lparr>win = w, frame = f\<rparr>],
                       client_count := i + 1\<rparr>)
         else Inl ClientsOverflow)"

text \<open>The search loop of \<open>owen_clients_get_index\<close>, from index \<open>i\<close>.\<close>

function owen_clients_get_index_from :: "window \<Rightarrow> OwenScreen \<Rightarrow> int \<Rightarrow> int" where
  "owen_clients_get_index_from w scr i =
     (if i < client_count scr
      then (if w = win (clients scr ! nat i) then i else owen_clients_get_index_from w scr (i + 1))
      else -1)"
  by pat_completeness auto
termination
  by (relation "measure (\<lambda>(w, scr, i). nat (client_count scr - i))") auto

definition owen_clients_get_index :: "window \<Rightarrow> OwenScreen \<Rightarrow> int" where
  "owen_clients_get_index w scr = owen_clients_get_index_from w scr 0"

text \<open>The loop of \<open>owen_clients_delete\<close>: the first match is overwritten by the last
  live record and the count drops; no match leaves the screen unchanged.\<close>

function owen_clients_delete_from :: "window \<Rightarrow> int \<Rightarrow> OwenScreen \<Rightarrow> OwenScreen" where
  "owen_clients_delete_from w i scr =
     (if i < client_count scr
      then (if w = win (clients scr ! nat i)
            then scr\<lparr>clients := (clients scr)[nat i := clients scr ! nat (client_count scr - 1)],
                     client_count := client_count scr - 1\<rparr>
            else owen_clients_delete_from w (i + 1) scr)
      else scr)"
  by pat_completeness auto
termination
  by (relation "measure (\<lambda>(w, i, scr). nat (client_count scr - i))") auto

definition owen_clients_delete :: "window \<Rightarrow> OwenScreen \<Rightarrow> OwenScreen" where
  "owen_clients_delete w scr = owen_clients_delete_from w 0 scr"

declare owen_clients_get_index_from.simps [simp del] owen_clients_delete_from.simps [simp del]

subsection \<open>The abstract registry (spec section 4.1) and operation sequences\<close>

text \<open>
  The registry's contract: a finite map from client to frame with \<open>add\<close> (only for a
  client not present: a programmer error otherwise) and \<open>remove\<close> (a no-op when
  absent). A sequence of operations runs on the map and on the C array alike; the
  precondition \<open>reg_ops_ok\<close> asks what the contract asks of \<open>add\<close>, and that the
  array has room (at most 256 clients at once, which the spec does not impose).
\<close>

datatype reg_op = RegAdd window window | RegRemove window

fun reg_spec_step :: "(window \<rightharpoonup> window) \<Rightarrow> reg_op \<Rightarrow> (window \<rightharpoonup> window)" where
  "reg_spec_step m (RegAdd w f) = m(w \<mapsto> f)"
| "reg_spec_step m (RegRemove w) = m(w := None)"

fun reg_c_step :: "OwenScreen \<Rightarrow> reg_op \<Rightarrow> wm_error + OwenScreen" where
  "reg_c_step scr (RegAdd w f) = owen_clients_add w f scr"
| "reg_c_step scr (RegRemove w) = Inr (owen_clients_delete w scr)"

fun reg_c_run :: "OwenScreen \<Rightarrow> reg_op list \<Rightarrow> wm_error + OwenScreen" where
  "reg_c_run scr [] = Inr scr"
| "reg_c_run scr (op # ops) =
     (case reg_c_step scr op of Inl e \<Rightarrow> Inl e | Inr scr' \<Rightarrow> reg_c_run scr' ops)"

fun reg_ops_ok :: "(window \<rightharpoonup> window) \<Rightarrow> reg_op list \<Rightarrow> bool" where
  "reg_ops_ok m [] = True"
| "reg_ops_ok m (RegAdd w f # ops) =
     (m w = None \<and> card (dom m) < CLIENTS_CAPACITY \<and> reg_ops_ok (m(w \<mapsto> f)) ops)"
| "reg_ops_ok m (RegRemove w # ops) = reg_ops_ok (m(w := None)) ops"

subsection \<open>Abstraction and invariant\<close>

definition live_clients :: "OwenScreen \<Rightarrow> Client list" where
  "live_clients scr = take (nat (client_count scr)) (clients scr)"

definition client_pair :: "Client \<Rightarrow> window \<times> window" where
  "client_pair c = (win c, frame c)"

definition registry_of :: "OwenScreen \<Rightarrow> window \<rightharpoonup> window" where
  "registry_of scr = map_of (map client_pair (live_clients scr))"

definition owen_screen_wf :: "OwenScreen \<Rightarrow> bool" where
  "owen_screen_wf scr \<longleftrightarrow>
     length (clients scr) = CLIENTS_CAPACITY \<and> 0 \<le> client_count scr \<and>
     nat (client_count scr) \<le> CLIENTS_CAPACITY \<and> distinct (map win (live_clients scr))"

text \<open>The reference search: the position of the first live record of \<open>w\<close>, or \<open>-1\<close>.\<close>

definition clients_index_spec :: "window \<Rightarrow> Client list \<Rightarrow> int" where
  "clients_index_spec w cs =
     (if w \<in> win ` set cs then int (length (takeWhile (\<lambda>c. win c \<noteq> w) cs)) else -1)"

subsection \<open>The operations implement the abstract registry\<close>


lemma length_live_clients:
  "nat (client_count scr) \<le> length (clients scr) \<Longrightarrow> length (live_clients scr) = nat (client_count scr)"
  by (simp add: live_clients_def)

lemma nth_live_clients:
  "k < nat (client_count scr) \<Longrightarrow> live_clients scr ! k = clients scr ! k"
  by (simp add: live_clients_def)

lemma owen_clients_get_index_from_eq:
  assumes "0 \<le> i" "nat (client_count scr) \<le> length (clients scr)"
  shows "owen_clients_get_index_from w scr i =
           (let cs = drop (nat i) (live_clients scr)
            in if w \<in> win ` set cs then i + int (length (takeWhile (\<lambda>c. win c \<noteq> w) cs)) else -1)"
  using assms
proof (induction w scr i rule: owen_clients_get_index_from.induct)
  case (1 w scr i)
  show ?case
  proof (cases "i < client_count scr")
    case True
    then have lt: "nat i < length (live_clients scr)"
      using "1.prems" by (simp add: length_live_clients)
    have drop: "drop (nat i) (live_clients scr) = clients scr ! nat i # drop (nat (i + 1)) (live_clients scr)"
    proof -
      have "live_clients scr ! nat i = clients scr ! nat i"
        using True "1.prems"(1) by (simp add: nth_live_clients)
      then show ?thesis
        using lt "1.prems"(1) by (simp add: Cons_nth_drop_Suc [symmetric] nat_add_distrib)
    qed
    show ?thesis
    proof (cases "w = win (clients scr ! nat i)")
      case True
      have "owen_clients_get_index_from w scr i = i"
        unfolding owen_clients_get_index_from.simps [of w scr i]
        using \<open>i < client_count scr\<close> True by simp
      then show ?thesis
        using drop True by simp
    next
      case False
      then have "owen_clients_get_index_from w scr i = owen_clients_get_index_from w scr (i + 1)"
        using \<open>i < client_count scr\<close> by (simp add: owen_clients_get_index_from.simps [of w scr i])
      then show ?thesis
        using "1.IH" [OF \<open>i < client_count scr\<close> False] "1.prems" drop False by (simp add: Let_def)
    qed
  next
    case False
    then have "drop (nat i) (live_clients scr) = []"
      using "1.prems" by (simp add: length_live_clients)
    with False show ?thesis by (simp add: owen_clients_get_index_from.simps [of w scr i])
  qed
qed

lemma owen_clients_get_index_spec:
  "nat (client_count scr) \<le> length (clients scr) \<Longrightarrow>
   owen_clients_get_index w scr = clients_index_spec w (live_clients scr)"
  by (simp add: owen_clients_get_index_def owen_clients_get_index_from_eq clients_index_spec_def)

lemma owen_clients_delete_from_eq:
  "0 \<le> i \<Longrightarrow> owen_clients_delete_from w i scr =
     (let j = owen_clients_get_index_from w scr i
      in if j = -1 then scr
         else scr\<lparr>clients := (clients scr)[nat j := clients scr ! nat (client_count scr - 1)],
                  client_count := client_count scr - 1\<rparr>)"
proof (induction w i scr rule: owen_clients_delete_from.induct)
  case (1 w i scr)
  then show ?case
    by (simp add: owen_clients_delete_from.simps [of w i scr]
                  owen_clients_get_index_from.simps [of w scr i] Let_def)
qed

lemma clients_index_spec_found:
  assumes "w \<in> win ` set cs"
  obtains j where "clients_index_spec w cs = int j" "j < length cs" "win (cs ! j) = w"
proof -
  let ?j = "length (takeWhile (\<lambda>c. win c \<noteq> w) cs)"
  have j: "?j < length cs"
    using assms by (auto intro: length_takeWhile_less)
  moreover have "win (cs ! ?j) = w"
    using nth_length_takeWhile [OF \<open>?j < length cs\<close>] by simp
  ultimately show ?thesis
    using assms that by (simp add: clients_index_spec_def)
qed

lemma distinct_client_keys:
  "distinct (map win cs) \<Longrightarrow> distinct (map fst (map client_pair cs))"
  by (simp add: client_pair_def comp_def)

lemma registry_of_live_nth:
  assumes "owen_screen_wf scr" "j < length (live_clients scr)"
  shows "registry_of scr (win (live_clients scr ! j)) = Some (frame (live_clients scr ! j))"
proof -
  have "client_pair (live_clients scr ! j) \<in> set (map client_pair (live_clients scr))"
    using assms(2) by simp
  then show ?thesis
    using assms(1) distinct_client_keys [of "live_clients scr"]
    by (simp add: registry_of_def owen_screen_wf_def client_pair_def)
qed

lemma dom_registry_of:
  "dom (registry_of scr) = win ` set (live_clients scr)"
  by (force simp: registry_of_def dom_map_of_conv_image_fst client_pair_def)

lemma owen_screen_wf_bound:
  "owen_screen_wf scr \<Longrightarrow> nat (client_count scr) \<le> length (clients scr)"
  by (simp add: owen_screen_wf_def)

lemma owen_clients_get_index_registry:
  assumes "owen_screen_wf scr"
  shows "(owen_clients_get_index w scr = -1 \<longleftrightarrow> registry_of scr w = None) \<and>
         (\<forall>f. registry_of scr w = Some f \<longrightarrow>
            0 \<le> owen_clients_get_index w scr \<and> owen_clients_get_index w scr < client_count scr \<and>
            clients scr ! nat (owen_clients_get_index w scr) = \<lparr>win = w, frame = f\<rparr>)"
proof (cases "w \<in> win ` set (live_clients scr)")
  case True
  obtain j where j: "clients_index_spec w (live_clients scr) = int j"
      "j < length (live_clients scr)" "win (live_clients scr ! j) = w"
    using clients_index_spec_found [OF True] by blast
  have idx: "owen_clients_get_index w scr = int j"
    using assms j(1) by (simp add: owen_clients_get_index_spec owen_screen_wf_bound)
  have reg: "registry_of scr w = Some (frame (live_clients scr ! j))"
    using registry_of_live_nth [OF assms j(2)] j(3) by simp
  have "j < nat (client_count scr)"
    using j(2) assms by (simp add: length_live_clients owen_screen_wf_bound)
  then show ?thesis
    using idx reg j(3) by (simp add: nth_live_clients)
next
  case False
  then have "registry_of scr w = None"
    using dom_registry_of [of scr] by blast
  then show ?thesis
    using False assms by (simp add: owen_clients_get_index_spec owen_screen_wf_bound clients_index_spec_def)
qed

lemma live_clients_remove_at:
  assumes "j < nat (client_count scr)" "nat (client_count scr) \<le> length (clients scr)"
  shows "live_clients (scr\<lparr>clients := (clients scr)[j := clients scr ! nat (client_count scr - 1)],
                           client_count := client_count scr - 1\<rparr>) =
         butlast ((live_clients scr)[j := last (live_clients scr)])"
proof -
  let ?n = "nat (client_count scr)"
  have ne: "live_clients scr \<noteq> []" and len: "length (live_clients scr) = ?n"
    using assms by (auto simp: live_clients_def min_def)
  have last: "last (live_clients scr) = clients scr ! (?n - 1)"
    using ne len assms by (simp add: last_conv_nth nth_live_clients)
  have "nat (client_count scr - 1) = ?n - 1"
    using assms by simp
  then show ?thesis
    using assms last len
    by (simp add: live_clients_def butlast_conv_take take_update_swap min_def)
qed

lemma fst_client_pair: "fst (client_pair c) = win c"
  by (simp add: client_pair_def)

lemma client_pair_image_filter:
  "client_pair ` {c \<in> S. win c \<noteq> w} = {p \<in> client_pair ` S. fst p \<noteq> w}"
  by (auto simp: fst_client_pair simp del: fst_conv)

lemma owen_clients_delete_registry:
  assumes wf: "owen_screen_wf scr"
  shows "registry_of (owen_clients_delete w scr) = (registry_of scr)(w := None)"
    and "owen_screen_wf (owen_clients_delete w scr)"
proof -
  let ?L = "live_clients scr"
  have bound: "nat (client_count scr) \<le> length (clients scr)"
    using wf by (rule owen_screen_wf_bound)
  have del: "owen_clients_delete w scr =
     (let j = owen_clients_get_index w scr
      in if j = -1 then scr
         else scr\<lparr>clients := (clients scr)[nat j := clients scr ! nat (client_count scr - 1)],
                  client_count := client_count scr - 1\<rparr>)"
    by (simp add: owen_clients_delete_def owen_clients_get_index_def owen_clients_delete_from_eq)
  have "registry_of (owen_clients_delete w scr) = (registry_of scr)(w := None) \<and>
        owen_screen_wf (owen_clients_delete w scr)"
  proof (cases "w \<in> win ` set ?L")
    case False
    then have "registry_of scr w = None"
      using dom_registry_of [of scr] by blast
    moreover have "owen_clients_get_index w scr = -1"
      using False bound by (simp add: owen_clients_get_index_spec clients_index_spec_def)
    ultimately show ?thesis
      using del wf by (simp add: fun_upd_idem)
  next
    case True
    obtain j where j: "clients_index_spec w ?L = int j" "j < length ?L" "win (?L ! j) = w"
      using clients_index_spec_found [OF True] by blast
    have jn: "j < nat (client_count scr)"
      using j(2) bound by (simp add: length_live_clients)
    let ?L' = "butlast (?L[j := last ?L])"
    have new: "owen_clients_delete w scr =
        scr\<lparr>clients := (clients scr)[j := clients scr ! nat (client_count scr - 1)],
            client_count := client_count scr - 1\<rparr>"
      using del j(1) bound by (simp add: owen_clients_get_index_spec)
    have live': "live_clients (owen_clients_delete w scr) = ?L'"
      using new live_clients_remove_at [OF jn bound] by simp
    have dw: "distinct (map win ?L)"
      using wf by (simp add: owen_screen_wf_def)
    have d': "distinct (map win ?L')" and s': "set ?L' = set ?L - {?L ! j}"
      using butlast_update_last_remove [OF dw j(2)] by simp_all
    have "set (map client_pair ?L') = {p \<in> set (map client_pair ?L). fst p \<noteq> w}"
    proof -
      have inj: "inj_on win (set ?L)"
        using dw by (simp add: distinct_map)
      have mem: "?L ! j \<in> set ?L"
        using j(2) by simp
      have "c \<in> set ?L' \<longleftrightarrow> c \<in> set ?L \<and> win c \<noteq> w" for c
        using s' inj mem j(3) by (auto dest: inj_onD)
      then have "set ?L' = {c \<in> set ?L. win c \<noteq> w}"
        by blast
      then show ?thesis
        by (simp only: set_map client_pair_image_filter)
    qed
    then have "map_of (map client_pair ?L') = (map_of (map client_pair ?L))(w := None)"
      by (rule map_of_remove_key [OF distinct_client_keys [OF dw] distinct_client_keys [OF d']])
    moreover have "owen_screen_wf (owen_clients_delete w scr)"
      using wf new live' d' jn by (simp add: owen_screen_wf_def) arith
    ultimately show ?thesis
      using live' by (simp add: registry_of_def)
  qed
  then show "registry_of (owen_clients_delete w scr) = (registry_of scr)(w := None)"
    and "owen_screen_wf (owen_clients_delete w scr)" by simp_all
qed

lemma live_clients_append:
  assumes "0 \<le> client_count scr" "nat (client_count scr) < length (clients scr)"
  shows "live_clients (scr\<lparr>clients := (clients scr)[nat (client_count scr) := c],
                           client_count := client_count scr + 1\<rparr>) = live_clients scr @ [c]"
proof -
  have "nat (client_count scr + 1) = Suc (nat (client_count scr))"
    using assms(1) by simp
  then show ?thesis
    using assms by (simp add: live_clients_def take_Suc_conv_app_nth)
qed

lemma owen_clients_add_Inr:
  assumes "owen_screen_wf scr" "client_count scr < int CLIENTS_CAPACITY"
  shows "owen_clients_add w f scr =
           Inr (scr\<lparr>clients := (clients scr)[nat (client_count scr) := \<lparr>win = w, frame = f\<rparr>],
                    client_count := client_count scr + 1\<rparr>)"
proof -
  have "0 \<le> client_count scr \<and> nat (client_count scr) < length (clients scr)"
    using assms by (simp add: owen_screen_wf_def) arith
  then show ?thesis
    by (simp add: owen_clients_add_def Let_def)
qed

lemma card_dom_registry_of:
  "owen_screen_wf scr \<Longrightarrow> card (dom (registry_of scr)) = nat (client_count scr)"
  by (simp add: dom_registry_of owen_screen_wf_def card_image distinct_map distinct_card
                length_live_clients)

lemma owen_clients_add_registry:
  assumes wf: "owen_screen_wf scr" and fresh: "registry_of scr w = None"
    and room: "client_count scr < int CLIENTS_CAPACITY"
  shows "\<exists>scr'. owen_clients_add w f scr = Inr scr' \<and>
                registry_of scr' = (registry_of scr)(w \<mapsto> f) \<and> owen_screen_wf scr' \<and>
                client_count scr' = client_count scr + 1"
proof -
  let ?scr' = "scr\<lparr>clients := (clients scr)[nat (client_count scr) := \<lparr>win = w, frame = f\<rparr>],
                   client_count := client_count scr + 1\<rparr>"
  have bounds: "0 \<le> client_count scr" "nat (client_count scr) < length (clients scr)"
    using wf room by (simp_all add: owen_screen_wf_def) arith
  have live: "live_clients ?scr' = live_clients scr @ [\<lparr>win = w, frame = f\<rparr>]"
    using live_clients_append [OF bounds] by simp
  have notin: "w \<notin> win ` set (live_clients scr)"
    using fresh dom_registry_of [of scr] by blast
  have "registry_of ?scr' = (registry_of scr)(w \<mapsto> f)"
    using live fresh by (simp add: registry_of_def client_pair_def map_add_def fun_eq_iff
                          split: option.splits)
  moreover have "owen_screen_wf ?scr'"
    using wf room live notin by (simp add: owen_screen_wf_def)
  ultimately show ?thesis
    using owen_clients_add_Inr [OF wf room] by simp
qed

lemma owen_clients_add_overflow:
  "owen_screen_wf scr \<Longrightarrow> client_count scr = int CLIENTS_CAPACITY \<Longrightarrow>
   owen_clients_add w f scr = Inl ClientsOverflow"
  by (simp add: owen_clients_add_def owen_screen_wf_def)

subsection \<open>Registry theorems\<close>

text \<open>C9: the C array registry implements the abstract registry: from a
  well-formed array, every operation sequence within the contract runs without error,
  keeps the array well-formed and ends in the array whose live prefix is the map the
  abstract operations compute.\<close>

theorem owen_registry_refines:
  assumes "owen_screen_wf scr" "reg_ops_ok (registry_of scr) ops"
  shows "\<exists>scr'. reg_c_run scr ops = Inr scr' \<and> owen_screen_wf scr' \<and>
                registry_of scr' = fold (\<lambda>op m. reg_spec_step m op) ops (registry_of scr)"
  using assms
proof (induction ops arbitrary: scr)
  case Nil
  then show ?case by simp
next
  case (Cons op ops)
  show ?case
  proof (cases op)
    case (RegAdd w f)
    have pre: "registry_of scr w = None" "card (dom (registry_of scr)) < CLIENTS_CAPACITY"
      and rest: "reg_ops_ok ((registry_of scr)(w \<mapsto> f)) ops"
      using Cons.prems(2) RegAdd by simp_all
    have "client_count scr < int CLIENTS_CAPACITY"
      using pre(2) card_dom_registry_of [OF Cons.prems(1)] Cons.prems(1)
      by (simp add: owen_screen_wf_def)
    then obtain scr1 where add: "owen_clients_add w f scr = Inr scr1"
      and reg1: "registry_of scr1 = (registry_of scr)(w \<mapsto> f)" and wf1: "owen_screen_wf scr1"
      using owen_clients_add_registry [OF Cons.prems(1) pre(1)] by blast
    have ok1: "reg_ops_ok (registry_of scr1) ops"
      using rest reg1 by simp
    obtain scr' where "reg_c_run scr1 ops = Inr scr'" "owen_screen_wf scr'"
        "registry_of scr' = fold (\<lambda>op m. reg_spec_step m op) ops (registry_of scr1)"
      using Cons.IH [OF wf1 ok1] by blast
    then show ?thesis
      using add RegAdd reg1 by simp
  next
    case (RegRemove w)
    let ?scr1 = "owen_clients_delete w scr"
    have reg1: "registry_of ?scr1 = (registry_of scr)(w := None)"
      by (rule owen_clients_delete_registry(1) [OF Cons.prems(1)])
    have ok1: "reg_ops_ok (registry_of ?scr1) ops"
      using Cons.prems(2) RegRemove reg1 by simp
    obtain scr' where "reg_c_run ?scr1 ops = Inr scr'" "owen_screen_wf scr'"
        "registry_of scr' = fold (\<lambda>op m. reg_spec_step m op) ops (registry_of ?scr1)"
      using Cons.IH [OF owen_clients_delete_registry(2) [OF Cons.prems(1)] ok1] by blast
    then show ?thesis
      using RegRemove reg1 by simp
  qed
qed

theorem owen_registry_refines_witness:
  "owen_screen_wf owen_screen_zero \<and>
   reg_ops_ok (registry_of owen_screen_zero) [RegAdd 5 50, RegAdd 6 60, RegRemove 5] \<and>
   (\<exists>scr'. reg_c_run owen_screen_zero [RegAdd 5 50, RegAdd 6 60, RegRemove 5] = Inr scr' \<and>
           owen_screen_wf scr' \<and> registry_of scr' = [6 \<mapsto> 60])"
proof -
  have wf: "owen_screen_wf owen_screen_zero"
    by (simp add: owen_screen_wf_def owen_screen_zero_def live_clients_def CLIENTS_CAPACITY_def)
  have reg0: "registry_of owen_screen_zero = Map.empty"
    by (simp add: registry_of_def owen_screen_zero_def live_clients_def)
  have ok: "reg_ops_ok (registry_of owen_screen_zero) [RegAdd 5 50, RegAdd 6 60, RegRemove 5]"
    by (simp add: reg0 CLIENTS_CAPACITY_def)
  have "fold (\<lambda>op m. reg_spec_step m op) [RegAdd 5 50, RegAdd 6 60, RegRemove 5]
          (registry_of owen_screen_zero) = [6 \<mapsto> 60]"
    by (simp add: reg0 fun_eq_iff)
  then show ?thesis
    using owen_registry_refines [OF wf ok] wf ok by simp
qed

text \<open>Adding a client that is already managed: the array gets a second record for it,
  which lookups never reach.\<close>

lemma owen_clients_add_managed:
  assumes wf: "owen_screen_wf scr" and old: "registry_of scr w = Some f0"
    and room: "client_count scr < int CLIENTS_CAPACITY"
  shows "\<exists>scr'. owen_clients_add w f scr = Inr scr' \<and> registry_of scr' = registry_of scr \<and>
                \<not> owen_screen_wf scr' \<and> client_count scr' = client_count scr + 1"
proof -
  let ?scr' = "scr\<lparr>clients := (clients scr)[nat (client_count scr) := \<lparr>win = w, frame = f\<rparr>],
                   client_count := client_count scr + 1\<rparr>"
  have bounds: "0 \<le> client_count scr" "nat (client_count scr) < length (clients scr)"
    using wf room by (simp_all add: owen_screen_wf_def) arith
  have live: "live_clients ?scr' = live_clients scr @ [\<lparr>win = w, frame = f\<rparr>]"
    using live_clients_append [OF bounds] by simp
  have isin: "w \<in> win ` set (live_clients scr)"
    using old dom_registry_of [of scr] by blast
  have "registry_of ?scr' = registry_of scr"
    using live old by (simp add: registry_of_def client_pair_def map_add_def fun_eq_iff
                          split: option.splits)
  moreover have "\<not> owen_screen_wf ?scr'"
    using live isin by (simp add: owen_screen_wf_def)
  ultimately show ?thesis
    using owen_clients_add_Inr [OF wf room] by simp
qed


text \<open>C37: the registry's insert/lookup/delete round trip on the C array: after
  \<open>owen_clients_add w f\<close> of a client not yet managed, the lookup the handlers perform
  (\<open>clients[owen_clients_get_index(w)].frame\<close>) finds \<open>f\<close>; after
  \<open>owen_clients_delete w\<close> the lookup returns not-found (\<open>-1\<close>) and the registry is
  the one before the insertion.\<close>

theorem owen_clients_roundtrip:
  assumes wf: "owen_screen_wf scr" and fresh: "registry_of scr w = None"
    and room: "client_count scr < int CLIENTS_CAPACITY" and add: "owen_clients_add w f scr = Inr scr'"
  shows "owen_clients_get_index w scr' \<noteq> -1 \<and>
         frame (clients scr' ! nat (owen_clients_get_index w scr')) = f \<and>
         owen_clients_get_index w (owen_clients_delete w scr') = -1 \<and>
         registry_of (owen_clients_delete w scr') = registry_of scr"
proof -
  obtain scr1 where "owen_clients_add w f scr = Inr scr1" and reg: "registry_of scr1 = (registry_of scr)(w \<mapsto> f)"
    and wf1: "owen_screen_wf scr1"
    using owen_clients_add_registry [OF wf fresh room] by blast
  with add have s: "scr1 = scr'" by simp
  have d: "registry_of (owen_clients_delete w scr') = registry_of scr"
    using owen_clients_delete_registry(1) [OF wf1] reg fresh s by (simp add: fun_eq_iff)
  have "owen_clients_get_index w (owen_clients_delete w scr') = -1"
    using owen_clients_get_index_registry [OF owen_clients_delete_registry(2) [OF wf1]] d fresh s by simp
  then show ?thesis
    using owen_clients_get_index_registry [OF wf1, of w] reg s d by auto
qed

theorem owen_clients_roundtrip_witness:
  "\<exists>scr'. owen_clients_add 7 70 owen_screen_zero = Inr scr' \<and>
     owen_clients_get_index 7 scr' \<noteq> -1 \<and> frame (clients scr' ! nat (owen_clients_get_index 7 scr')) = 70 \<and>
     owen_clients_get_index 7 (owen_clients_delete 7 scr') = -1 \<and>
     registry_of (owen_clients_delete 7 scr') = Map.empty"
proof -
  have h: "owen_screen_wf owen_screen_zero" "registry_of owen_screen_zero 7 = None"
      "client_count owen_screen_zero < int CLIENTS_CAPACITY" "registry_of owen_screen_zero = Map.empty"
    by (simp_all add: owen_screen_wf_def owen_screen_zero_def live_clients_def CLIENTS_CAPACITY_def
                      registry_of_def fun_eq_iff)
  obtain scr' where add: "owen_clients_add 7 70 owen_screen_zero = Inr scr'"
    using owen_clients_add_registry [OF h(1,2,3)] by blast
  show ?thesis
    using owen_clients_roundtrip [OF h(1,2,3) add] add h(4) by simp
qed

text \<open>C36: \<open>owen_clients_add\<close> does not check its precondition (spec section 4.1: the
  client is not yet managed). Adding a managed client again succeeds, appends a
  second record and breaks the array's well-formedness, while every lookup still
  returns the old frame: the new frame is lost.\<close>

theorem owen_clients_add_duplicate:
  assumes wf: "owen_screen_wf scr" and old: "registry_of scr w = Some f0"
    and room: "client_count scr < int CLIENTS_CAPACITY"
  shows "\<exists>scr'. owen_clients_add w f scr = Inr scr' \<and> registry_of scr' = registry_of scr \<and>
                \<not> owen_screen_wf scr' \<and> client_count scr' = client_count scr + 1"
  using owen_clients_add_managed [OF assms] .

theorem owen_clients_add_duplicate_witness:
  "\<exists>scr'. owen_clients_add 7 71 (owen_screen_zero\<lparr>clients :=
       (clients owen_screen_zero)[0 := \<lparr>win = 7, frame = 70\<rparr>], client_count := 1\<rparr>) = Inr scr' \<and>
     registry_of scr' = [7 \<mapsto> 70] \<and> \<not> owen_screen_wf scr' \<and> client_count scr' = 2"
proof -
  let ?s = "owen_screen_zero\<lparr>clients := (clients owen_screen_zero)[0 := \<lparr>win = 7, frame = 70\<rparr>],
              client_count := 1\<rparr>"
  have wf: "owen_screen_wf ?s" and room: "client_count ?s < int CLIENTS_CAPACITY"
    by (simp_all add: owen_screen_wf_def owen_screen_zero_def live_clients_def CLIENTS_CAPACITY_def
                      take_update_swap)
  have reg: "registry_of ?s = [7 \<mapsto> 70]"
    by (simp add: registry_of_def owen_screen_zero_def live_clients_def client_pair_def take_update_swap
                  CLIENTS_CAPACITY_def fun_eq_iff)
  show ?thesis
    using owen_clients_add_duplicate [OF wf _ room, of 7 70 71] reg by simp
qed

end
