(* ===== verification/Layout.thy ===== *)
theory Layout
  imports Registry_C
begin

text \<open>
  The layout engine of \<open>src/owen.c\<close> (\<open>owen_frame_get_width\<close>,
  \<open>owen_frame_get_height\<close>, \<open>owen_frame_get_start_point\<close>): the geometry of the frame
  of the next client, from the screen size and the number of clients already managed.
  C \<open>int\<close> division truncates towards zero, so it is \<open>sdiv\<close>; every divisor is
  guarded to be nonzero. The abstract \<open>layout_spec\<close> is the table of spec section 4.2
  in floor division on a nonnegative screen; \<open>owen_layout_refines\<close> shows that the C
  functions compute it. The other lemmas: the values of spec section 8, that every frame
  lies inside the screen, and the overlap of consecutive frames from the third client
  on, which the spec keeps as a known quirk (section 9).
\<close>

record Point =
  pt_x :: int
  pt_y :: int

definition owen_frame_get_width :: "OwenScreen \<Rightarrow> int" where
  "owen_frame_get_width scr =
     (if client_count scr = 0 then width scr else width scr sdiv 2)"

definition owen_frame_get_height :: "OwenScreen \<Rightarrow> int" where
  "owen_frame_get_height scr =
     (if client_count scr = 0 then height scr else height scr sdiv client_count scr)"

definition owen_frame_get_start_point :: "OwenScreen \<Rightarrow> int \<Rightarrow> Point" where
  "owen_frame_get_start_point scr i =
     \<lparr>pt_x = (if i = 0 then 0 else width scr sdiv 2),
      pt_y = (if i = 0 \<or> i = 1 then 0 else height scr sdiv i)\<rparr>"

text \<open>The frame rectangle \<open>(x, y, width, height)\<close> that \<open>owen_frame\<close> builds from them.\<close>

definition owen_frame_geometry :: "OwenScreen \<Rightarrow> int \<times> int \<times> int \<times> int" where
  "owen_frame_geometry scr =
     (let p = owen_frame_get_start_point scr (client_count scr)
      in (pt_x p, pt_y p, owen_frame_get_width scr, owen_frame_get_height scr))"

text \<open>Spec section 4.2: the frame of the client that arrives when \<open>n\<close> are managed.\<close>

definition layout_spec :: "nat \<Rightarrow> int \<Rightarrow> int \<Rightarrow> int \<times> int \<times> int \<times> int" where
  "layout_spec n W H =
     (if n = 0 then (0, 0, W, H)
      else (W div 2, if n = 1 then 0 else H div int n, W div 2, H div int n))"

definition rects_overlap :: "int \<times> int \<times> int \<times> int \<Rightarrow> int \<times> int \<times> int \<times> int \<Rightarrow> bool" where
  "rects_overlap r s =
     (case (r, s) of ((x1, y1, w1, h1), (x2, y2, w2, h2)) \<Rightarrow>
        x1 < x2 + w2 \<and> x2 < x1 + w1 \<and> y1 < y2 + h2 \<and> y2 < y1 + h1)"

subsection \<open>Lemmas\<close>

lemma sdiv_nonneg_eq_div:
  "0 \<le> a \<Longrightarrow> 0 < b \<Longrightarrow> (a :: int) sdiv b = a div b"
  by (simp add: signed_divide_int_def sgn_if)

lemma layout_spec_in_screen:
  assumes "0 \<le> W" "0 \<le> H" "layout_spec n W H = (x, y, w, h)"
  shows "0 \<le> x \<and> 0 \<le> y \<and> 0 \<le> w \<and> 0 \<le> h \<and> x + w \<le> W \<and> y + h \<le> H"
proof (cases "n = 0")
  case True
  then show ?thesis using assms by (simp add: layout_spec_def)
next
  case False
  have "H div int n + H div int n \<le> H" if "2 \<le> n"
  proof -
    have "H div int n \<le> H div 2"
      using that assms(2) by (simp add: zdiv_mono2)
    then show ?thesis by linarith
  qed
  then show ?thesis
    using assms False by (auto simp: layout_spec_def pos_imp_zdiv_nonneg_iff split: if_splits)
qed

lemma owen_frame_geometry_nonneg:
  assumes "0 \<le> width scr" "0 \<le> height scr" "client_count scr = int n"
  shows "owen_frame_geometry scr = layout_spec n (width scr) (height scr)"
  using assms
  by (simp add: owen_frame_geometry_def owen_frame_get_start_point_def owen_frame_get_width_def
                owen_frame_get_height_def layout_spec_def sdiv_nonneg_eq_div)

text \<open>C10: the C layout functions compute the layout table of spec section 4.2 (C-int
  division is floor division on the nonnegative quantities it meets here).\<close>

theorem owen_layout_refines:
  assumes "0 \<le> width scr" "0 \<le> height scr" "client_count scr = int n"
  shows "owen_frame_geometry scr = layout_spec n (width scr) (height scr)"
  using assms by (rule owen_frame_geometry_nonneg)

theorem owen_layout_refines_witness:
  "0 \<le> width (owen_screen_zero\<lparr>width := 1920, height := 1080, client_count := 2\<rparr>) \<and>
   0 \<le> height (owen_screen_zero\<lparr>width := 1920, height := 1080, client_count := 2\<rparr>) \<and>
   client_count (owen_screen_zero\<lparr>width := 1920, height := 1080, client_count := 2\<rparr>) = int 2 \<and>
   owen_frame_geometry (owen_screen_zero\<lparr>width := 1920, height := 1080, client_count := 2\<rparr>) =
     layout_spec 2 1920 1080"
  using owen_layout_refines [of "owen_screen_zero\<lparr>width := 1920, height := 1080, client_count := 2\<rparr>" 2]
  by simp

text \<open>C38: every frame the layout engine places lies inside the screen.\<close>

theorem owen_layout_in_screen:
  assumes "0 \<le> width scr" "0 \<le> height scr" "0 \<le> client_count scr"
    and "owen_frame_geometry scr = (x, y, w, h)"
  shows "0 \<le> x \<and> 0 \<le> y \<and> 0 \<le> w \<and> 0 \<le> h \<and> x + w \<le> width scr \<and> y + h \<le> height scr"
proof -
  obtain n where "client_count scr = int n"
    using assms(3) by (metis nonneg_int_cases)
  then have "layout_spec n (width scr) (height scr) = (x, y, w, h)"
    using assms owen_frame_geometry_nonneg by metis
  then show ?thesis
    by (rule layout_spec_in_screen [OF assms(1,2)])
qed

theorem owen_layout_in_screen_witness:
  "0 \<le> width (owen_screen_zero\<lparr>width := 1920, height := 1080, client_count := 2\<rparr>) \<and>
   0 \<le> height (owen_screen_zero\<lparr>width := 1920, height := 1080, client_count := 2\<rparr>) \<and>
   0 \<le> client_count (owen_screen_zero\<lparr>width := 1920, height := 1080, client_count := 2\<rparr>) \<and>
   owen_frame_geometry (owen_screen_zero\<lparr>width := 1920, height := 1080, client_count := 2\<rparr>) =
     (960, 540, 960, 540) \<and>
   0 \<le> (960::int) \<and> 0 \<le> (540::int) \<and> (960::int) + 960 \<le> 1920 \<and> (540::int) + 540 \<le> 1080"
proof -
  have g: "owen_frame_geometry (owen_screen_zero\<lparr>width := 1920, height := 1080, client_count := 2\<rparr>) =
     (960, 540, 960, 540)"
    by (simp add: owen_frame_geometry_def owen_frame_get_start_point_def owen_frame_get_width_def
                  owen_frame_get_height_def)
  show ?thesis
    using owen_layout_in_screen [of "owen_screen_zero\<lparr>width := 1920, height := 1080, client_count := 2\<rparr>"] g
    by simp
qed

text \<open>The quirk spec section 9 keeps: the frame placed for the third client
  overlaps the one placed for the second (the screen at least 2 by 9 pixels).\<close>

theorem owen_layout_overlap_third:
  assumes "2 \<le> W" "9 \<le> H"
  shows "rects_overlap (layout_spec 2 W H) (layout_spec 3 W H)"
  using assms by (simp add: layout_spec_def rects_overlap_def) presburger

theorem owen_layout_overlap_third_witness:
  "2 \<le> (1920::int) \<and> 9 \<le> (1080::int) \<and> rects_overlap (layout_spec 2 1920 1080) (layout_spec 3 1920 1080)"
  using owen_layout_overlap_third [of 1920 1080] by simp

end
