(* ===== verification/Owen_C.thy ===== *)
theory Owen_C
  imports XServer Layout
begin

text \<open>
  The window manager of \<open>src/owen.c\<close>: the global \<open>Owen\<close> record (root window,
  screen with its client array, the rival-detection flag) threaded together with the
  display gateway's state. One definition per function of the source, in its order:
  the two error handlers, \<open>owen_frame\<close> and \<open>owen_unframe\<close> (the framing engine), the
  three event handlers, \<open>owen_init\<close> (the startup guard), \<open>owen_reframe\<close> (the
  startup re-scan under a server grab), the dispatch of \<open>owen_run\<close>, and \<open>main\<close> on a
  finite prefix of the event stream. Every abort and every undefined behaviour of the
  source is an \<open>Inl\<close> of \<open>wm_error\<close>. The connection handle \<open>dpy\<close> and the
  cursor set-up (\<open>XCreateFontCursor\<close>, \<open>XDefineCursor\<close>: cosmetic) are left out.
\<close>

record Owen =
  root :: window
  screen :: OwenScreen
  wm_detected :: bool

type_synonym owen_state = "Owen \<times> XServer"

definition BORDER_WIDTH :: int where "BORDER_WIDTH = 4"
definition BORDER_COLOR :: nat where "BORDER_COLOR = 0xff5a5f"
definition BG_COLOR :: nat where "BG_COLOR = 0xbfd7ea"

subsection \<open>Error handlers\<close>

text \<open>\<open>_on_vm_detected\<close> (installed for the startup handshake) and \<open>_on_x_error\<close>
  (steady state), as callbacks on the window manager's state.\<close>

definition on_vm_detected :: "Owen \<Rightarrow> XErrorEvent \<Rightarrow> Owen" where
  "on_vm_detected ow e = (if error_code e = BadAccess then ow\<lparr>wm_detected := True\<rparr> else ow)"

definition on_x_error :: "Owen \<Rightarrow> XErrorEvent \<Rightarrow> Owen" where
  "on_x_error ow e = ow"

subsection \<open>Framing engine\<close>

text \<open>Steps 3 to 7 of \<open>owen_frame\<close>: geometry from the layout engine with the
  pre-insertion count, frame creation, event selection, save set, reparenting, mapping,
  registration.\<close>

definition owen_frame_create :: "window \<Rightarrow> Owen \<Rightarrow> XServer \<Rightarrow> wm_error + owen_state" where
  "owen_frame_create w ow xs =
     (let scr = screen ow;
          new_width = owen_frame_get_width scr;
          new_height = owen_frame_get_height scr;
          point = owen_frame_get_start_point scr (client_count scr);
          (fr, xs1) = x_create_simple_window (root ow) (pt_x point) (pt_y point)
                        new_width new_height BORDER_WIDTH BORDER_COLOR BG_COLOR xs;
          xs2 = x_select_input fr (SubstructureRedirectMask OR SubstructureNotifyMask) xs1;
          xs3 = x_add_to_save_set w xs2;
          xs4 = x_reparent_window w fr 0 0 xs3;
          xs5 = x_map_window fr xs4
      in case owen_clients_add w fr scr of
           Inl e \<Rightarrow> Inl e
         | Inr scr' \<Rightarrow> Inr (ow\<lparr>screen := scr'\<rparr>, xs5))"

text \<open>
  \<open>owen_frame\<close>: the status of \<open>XGetWindowAttributes\<close> is not checked. When it fails
  the attribute struct is uninitialised; it is read only for a pre-existing window
  (\<open>is_reframed\<close>), so only that path is undefined behaviour.
\<close>

definition owen_frame :: "window \<Rightarrow> bool \<Rightarrow> Owen \<Rightarrow> XServer \<Rightarrow> wm_error + owen_state" where
  "owen_frame w is_reframed ow xs =
     (case x_get_window_attributes w xs of
        (None, xs1) \<Rightarrow>
          if is_reframed then Inl UninitialisedAttributes else owen_frame_create w ow xs1
      | (Some a, xs1) \<Rightarrow>
          if is_reframed \<and> (wa_override_redirect a \<or> wa_map_state a \<noteq> IsViewable)
          then Inr (ow, xs1)
          else owen_frame_create w ow xs1)"

text \<open>\<open>owen_unframe\<close>: the index is not checked; \<open>-1\<close> reads \<open>clients[-1]\<close>.\<close>

definition owen_unframe :: "window \<Rightarrow> Owen \<Rightarrow> XServer \<Rightarrow> wm_error + owen_state" where
  "owen_unframe w ow xs =
     (let i = owen_clients_get_index w (screen ow)
      in if i < 0 then Inl ClientIndexOutOfRange
         else let fr = frame (clients (screen ow) ! nat i);
                  xs1 = x_unmap_window fr xs;
                  xs2 = x_reparent_window w (root ow) 0 0 xs1;
                  xs3 = x_remove_from_save_set w xs2;
                  xs4 = x_destroy_window fr xs3
              in Inr (ow\<lparr>screen := owen_clients_delete w (screen ow)\<rparr>, xs4))"

subsection \<open>Event handlers\<close>

definition x_on_unmap_notify :: "XUnmapEvent \<Rightarrow> Owen \<Rightarrow> XServer \<Rightarrow> wm_error + owen_state" where
  "x_on_unmap_notify e ow xs =
     (if owen_clients_get_index (ue_window e) (screen ow) = -1 then Inr (ow, xs)
      else if ue_event e = root ow then Inr (ow, xs)
      else owen_unframe (ue_window e) ow xs)"

definition x_on_map_request :: "window \<Rightarrow> Owen \<Rightarrow> XServer \<Rightarrow> wm_error + owen_state" where
  "x_on_map_request w ow xs =
     (case owen_frame w False ow xs of
        Inl e \<Rightarrow> Inl e
      | Inr (o', xs') \<Rightarrow> Inr (o', x_map_window w xs'))"

definition configure_changes :: "XConfigureRequestEvent \<Rightarrow> XWindowChanges" where
  "configure_changes e =
     \<lparr>wc_x = cr_x e, wc_y = cr_y e, wc_width = cr_width e, wc_height = cr_height e,
      wc_border_width = cr_border_width e, wc_sibling = cr_above e, wc_stack_mode = cr_detail e\<rparr>"

definition x_on_configure_request :: "XConfigureRequestEvent \<Rightarrow> Owen \<Rightarrow> XServer \<Rightarrow> owen_state" where
  "x_on_configure_request e ow xs =
     (let changes = configure_changes e;
          i = owen_clients_get_index (cr_window e) (screen ow);
          xs1 = (if i \<noteq> -1
                 then x_configure_window (frame (clients (screen ow) ! nat i)) (cr_value_mask e) changes xs
                 else xs)
      in (ow, x_configure_window (cr_window e) (cr_value_mask e) changes xs1))"

subsection \<open>Startup\<close>

text \<open>
  \<open>owen_init\<close>: \<open>None\<close> is a display that \<open>XOpenDisplay\<close> cannot open. The handshake
  selects substructure redirection on the root with \<open>_on_vm_detected\<close> installed and
  forces the errors in with \<open>XSync\<close>; a \<open>BadAccess\<close> means another window manager
  runs and the process exits. The second field of the result is the handler installed
  for the rest of the run.
\<close>

definition owen_init :: "XServer option \<Rightarrow> wm_error + owen_state" where
  "owen_init d =
     (case d of
        None \<Rightarrow> Inl DisplayOpenFailed
      | Some xs0 \<Rightarrow>
          let o0 = \<lparr>root = xs_root xs0, screen = owen_screen_zero, wm_detected = False\<rparr>;
              xs1 = x_select_input (root o0)
                      (SubstructureRedirectMask OR SubstructureNotifyMask OR ButtonPressMask) xs0;
              (o1, xs2) = x_sync on_vm_detected o0 xs1
          in if wm_detected o1 then Inl AnotherWMDetected
             else Inr (o1\<lparr>screen := (screen o1)\<lparr>client_count := 0,
                                index := xs_default_screen xs2,
                                height := xs_display_height xs2,
                                width := xs_display_width xs2\<rparr>\<rparr>, xs2))"

text \<open>The loop of \<open>owen_reframe\<close>: \<open>owen_frame w true\<close> for each top-level window,
  in the order \<open>XQueryTree\<close> returned them; an abort ends the process.\<close>

primrec owen_frame_all :: "window list \<Rightarrow> Owen \<Rightarrow> XServer \<Rightarrow> wm_error + owen_state" where
  "owen_frame_all [] ow xs = Inr (ow, xs)"
| "owen_frame_all (w # ws) ow xs =
     (case owen_frame w True ow xs of
        Inl e \<Rightarrow> Inl e
      | Inr (o', xs') \<Rightarrow> owen_frame_all ws o' xs')"

definition owen_reframe :: "Owen \<Rightarrow> XServer \<Rightarrow> wm_error + owen_state" where
  "owen_reframe ow xs =
     (let xs1 = x_grab_server xs
      in case x_query_tree (root ow) xs1 of
           (None, _) \<Rightarrow> Inl UninitialisedQueryTree
         | (Some tops, xs2) \<Rightarrow>
             (case owen_frame_all tops ow xs2 of
                Inl e \<Rightarrow> Inl e
              | Inr (o', xs3) \<Rightarrow> Inr (o', x_ungrab_server xs3)))"

subsection \<open>Event loop\<close>

text \<open>One iteration of \<open>owen_run\<close>'s loop: dispatch on the event kind; the other
  kinds are ignored.\<close>

fun owen_handle_event :: "XEvent \<Rightarrow> Owen \<Rightarrow> XServer \<Rightarrow> wm_error + owen_state" where
  "owen_handle_event (MapRequest w) ow xs = x_on_map_request w ow xs"
| "owen_handle_event (ConfigureRequest e) ow xs = Inr (x_on_configure_request e ow xs)"
| "owen_handle_event (UnmapNotify e) ow xs = x_on_unmap_notify e ow xs"
| "owen_handle_event _ ow xs = Inr (ow, xs)"

text \<open>\<open>owen_run\<close> never returns; its behaviour is the behaviour on every finite
  prefix of the event stream, which this runs (stopping at an abort).\<close>

fun owen_run :: "XEvent list \<Rightarrow> Owen \<Rightarrow> XServer \<Rightarrow> wm_error + owen_state" where
  "owen_run [] ow xs = Inr (ow, xs)"
| "owen_run (e # es) ow xs =
     (case owen_handle_event e ow xs of
        Inl err \<Rightarrow> Inl err
      | Inr (o', xs') \<Rightarrow> owen_run es o' xs')"

text \<open>\<open>owen_destroy\<close> closes the display connection. What that does to the windows is
  the server's close-down, \<open>x_close_display\<close>: the save set is restored and every window
  the connection created is destroyed.\<close>

definition owen_destroy :: "Owen \<Rightarrow> XServer \<Rightarrow> XServer" where
  "owen_destroy ow xs = x_close_display xs"

text \<open>\<open>main\<close>: \<open>owen_init\<close>, \<open>owen_reframe\<close>, then the loop on the events received.\<close>

definition owen_main :: "XServer option \<Rightarrow> XEvent list \<Rightarrow> wm_error + owen_state" where
  "owen_main d es =
     (case owen_init d of
        Inl e \<Rightarrow> Inl e
      | Inr (ow, xs) \<Rightarrow>
          (case owen_reframe ow xs of
             Inl e \<Rightarrow> Inl e
           | Inr (o', xs') \<Rightarrow> owen_run es o' xs'))"

end
