(* ===== verification/Owen_Cpp.thy ===== *)
theory Owen_Cpp
  imports Owen_C
begin

text \<open>
  The C++ implementation, \<open>src/owen.hpp\<close> and \<open>src/owen.cpp\<close>: class \<open>WindowManager\<close>
  as the record \<open>CppWM\<close>, each member function as a definition on \<open>CppWM\<close> and the
  display gateway. The registry \<open>clients_\<close> is a \<open>std::unordered_map\<close>, a partial map
  here, with \<open>operator[]\<close> written out: reading an absent key inserts it with the value
  \<open>0\<close> (\<open>cpp_index\<close>). The six drag fields are C++ \<open>int\<close>s that the constructor
  leaves indeterminate, so each is an \<open>int option\<close> (\<open>None\<close> until written); reading
  \<open>None\<close>, or overflowing the 32-bit range in the drag arithmetic, is undefined
  behaviour and ends the run with an error value. A failed glog \<open>CHECK\<close> aborts with
  \<open>CheckFailed\<close>. The motion-coalescing loop of \<open>Run\<close> consumes the events already
  queued, which is the list the dispatcher runs on.
\<close>

record CppWM =
  cpp_root :: window
  cpp_clients :: "window \<rightharpoonup> window"
  drag_start_pos_x :: "int option"
  drag_start_pos_y :: "int option"
  drag_start_frame_pos_x :: "int option"
  drag_start_frame_pos_y :: "int option"
  drag_start_frame_height :: "int option"
  drag_start_frame_width :: "int option"
  cpp_wm_detected :: bool

type_synonym cpp_state = "CppWM \<times> XServer"

subsection \<open>The registry and the C++ integers\<close>

text \<open>\<open>clients_[w]\<close> as an rvalue: the frame, inserting \<open>w \<mapsto> 0\<close> when \<open>w\<close> is absent.\<close>

definition cpp_index :: "window \<Rightarrow> CppWM \<Rightarrow> window \<times> CppWM" where
  "cpp_index w cw =
     (case cpp_clients cw w of
        Some f \<Rightarrow> (f, cw)
      | None \<Rightarrow> (0, cw\<lparr>cpp_clients := (cpp_clients cw)(w \<mapsto> 0)\<rparr>))"

definition int32_ok :: "int \<Rightarrow> bool" where
  "int32_ok v \<longleftrightarrow> - (2 ^ 31) \<le> v \<and> v < 2 ^ 31"

definition cpp_int_sub :: "int \<Rightarrow> int \<Rightarrow> wm_error + int" where
  "cpp_int_sub a b = (if int32_ok (a - b) then Inr (a - b) else Inl SignedOverflow)"

definition cpp_int_add :: "int \<Rightarrow> int \<Rightarrow> wm_error + int" where
  "cpp_int_add a b = (if int32_ok (a + b) then Inr (a + b) else Inl SignedOverflow)"

definition Button1Mask :: "32 word" where
  "Button1Mask = push_bit 8 1"

subsection \<open>Construction and error handlers\<close>

text \<open>\<open>Create\<close> and the constructor: \<open>None\<close> is a display that cannot be opened
  (\<open>Create\<close> returns \<open>nullptr\<close>). The static \<open>wm_detected_\<close> starts false.\<close>

definition cpp_create :: "XServer option \<Rightarrow> wm_error + CppWM" where
  "cpp_create d =
     (case d of
        None \<Rightarrow> Inl DisplayOpenFailed
      | Some xs \<Rightarrow> Inr \<lparr>cpp_root = xs_root xs, cpp_clients = Map.empty,
                        drag_start_pos_x = None, drag_start_pos_y = None,
                        drag_start_frame_pos_x = None, drag_start_frame_pos_y = None,
                        drag_start_frame_height = None, drag_start_frame_width = None,
                        cpp_wm_detected = False\<rparr>)"

text \<open>The destructor \<open>~WindowManager\<close> closes the display connection; its effect on the
  windows is the server's close-down, \<open>x_close_display\<close>.\<close>

definition cpp_destroy :: "CppWM \<Rightarrow> XServer \<Rightarrow> XServer" where
  "cpp_destroy cw xs = x_close_display xs"

text \<open>\<open>OnWMDetected\<close>: \<open>CHECK_EQ(error_code, BadAccess)\<close> aborts inside \<open>XSync\<close> on any
  other error; \<open>OnXError\<close> ignores every error.\<close>

definition cpp_on_wm_detected :: "wm_error + CppWM \<Rightarrow> XErrorEvent \<Rightarrow> wm_error + CppWM" where
  "cpp_on_wm_detected s e =
     (case s of
        Inl err \<Rightarrow> Inl err
      | Inr cw \<Rightarrow> if error_code e = BadAccess then Inr (cw\<lparr>cpp_wm_detected := True\<rparr>)
                  else Inl CheckFailed)"

definition cpp_on_x_error :: "CppWM \<Rightarrow> XErrorEvent \<Rightarrow> CppWM" where
  "cpp_on_x_error cw e = cw"

subsection \<open>Framing\<close>

text \<open>\<open>Frame\<close>: the frame is created at \<open>(50, 50)\<close> with the client's size, the
  substructure and button-press events are selected on it, button 1 is grabbed on the
  client, and \<open>clients_[w] = frame\<close> inserts or overwrites.\<close>

definition cpp_frame :: "window \<Rightarrow> bool \<Rightarrow> CppWM \<Rightarrow> XServer \<Rightarrow> wm_error + cpp_state" where
  "cpp_frame w was_created_before cw xs =
     (case x_get_window_attributes w xs of
        (None, _) \<Rightarrow> Inl CheckFailed
      | (Some a, xs1) \<Rightarrow>
          if was_created_before \<and> (wa_override_redirect a \<or> wa_map_state a \<noteq> IsViewable)
          then Inr (cw, xs1)
          else
            let (fr, xs2) = x_create_simple_window (cpp_root cw) 50 50 (wa_width a) (wa_height a)
                              BORDER_WIDTH BORDER_COLOR BG_COLOR xs1;
                xs3 = x_select_input fr
                        (SubstructureRedirectMask OR SubstructureNotifyMask OR ButtonPressMask) xs2;
                xs4 = x_grab_button w xs3;
                xs5 = x_add_to_save_set w xs4;
                xs6 = x_reparent_window w fr 0 0 xs5;
                xs7 = x_map_window fr xs6
            in Inr (cw\<lparr>cpp_clients := (cpp_clients cw)(w \<mapsto> fr)\<rparr>, xs7))"

text \<open>\<open>Unframe\<close>: only called for a registered client, so \<open>clients_[w]\<close> finds it.\<close>

definition cpp_unframe :: "window \<Rightarrow> CppWM \<Rightarrow> XServer \<Rightarrow> cpp_state" where
  "cpp_unframe w cw xs =
     (let (fr, cw1) = cpp_index w cw;
          xs1 = x_unmap_window fr xs;
          xs2 = x_reparent_window w (cpp_root cw1) 0 0 xs1;
          xs3 = x_remove_from_save_set w xs2;
          xs4 = x_destroy_window fr xs3
      in (cw1\<lparr>cpp_clients := (cpp_clients cw1)(w := None)\<rparr>, xs4))"

subsection \<open>Event handlers\<close>

text \<open>\<open>OnCreateNotify\<close> and \<open>OnDestroyNotify\<close> have empty bodies.\<close>

definition cpp_on_create_notify :: "window \<Rightarrow> CppWM \<Rightarrow> XServer \<Rightarrow> cpp_state" where
  "cpp_on_create_notify w cw xs = (cw, xs)"

definition cpp_on_destroy_notify :: "window \<Rightarrow> CppWM \<Rightarrow> XServer \<Rightarrow> cpp_state" where
  "cpp_on_destroy_notify w cw xs = (cw, xs)"

definition cpp_on_configure_request :: "XConfigureRequestEvent \<Rightarrow> CppWM \<Rightarrow> XServer \<Rightarrow> cpp_state" where
  "cpp_on_configure_request e cw xs =
     (let changes = configure_changes e;
          (cw1, xs1) = (if cpp_clients cw (cr_window e) \<noteq> None
                        then let (fr, cw1) = cpp_index (cr_window e) cw
                             in (cw1, x_configure_window fr (cr_value_mask e) changes xs)
                        else (cw, xs))
      in (cw1, x_configure_window (cr_window e) (cr_value_mask e) changes xs1))"

definition cpp_on_map_request :: "window \<Rightarrow> CppWM \<Rightarrow> XServer \<Rightarrow> wm_error + cpp_state" where
  "cpp_on_map_request w cw xs =
     (case cpp_frame w False cw xs of
        Inl e \<Rightarrow> Inl e
      | Inr (cw', xs') \<Rightarrow> Inr (cw', x_map_window w xs'))"

text \<open>\<open>OnReparentNotify\<close>, \<open>OnMapNotify\<close> and \<open>OnConfigureNotify\<close> have empty bodies.\<close>

definition cpp_on_reparent_notify :: "window \<Rightarrow> CppWM \<Rightarrow> XServer \<Rightarrow> cpp_state" where
  "cpp_on_reparent_notify w cw xs = (cw, xs)"

definition cpp_on_map_notify :: "window \<Rightarrow> CppWM \<Rightarrow> XServer \<Rightarrow> cpp_state" where
  "cpp_on_map_notify w cw xs = (cw, xs)"

definition cpp_on_configure_notify :: "window \<Rightarrow> CppWM \<Rightarrow> XServer \<Rightarrow> cpp_state" where
  "cpp_on_configure_notify w cw xs = (cw, xs)"

declare cpp_on_create_notify_def [simp] cpp_on_destroy_notify_def [simp] cpp_on_reparent_notify_def [simp]
  cpp_on_map_notify_def [simp] cpp_on_configure_notify_def [simp]

definition cpp_on_unmap_notify :: "XUnmapEvent \<Rightarrow> CppWM \<Rightarrow> XServer \<Rightarrow> cpp_state" where
  "cpp_on_unmap_notify e cw xs =
     (if cpp_clients cw (ue_window e) = None then (cw, xs)
      else if ue_event e = cpp_root cw then (cw, xs)
      else cpp_unframe (ue_window e) cw xs)"

text \<open>\<open>OnButtonPress\<close>: records the pointer and the frame geometry for a drag and
  raises the frame. The outputs of \<open>XGetGeometry\<close> are uninitialised locals when it
  fails (for instance on the frame \<open>0\<close> that \<open>clients_[w]\<close> inserted).\<close>

definition cpp_on_button_press :: "XButtonEvent \<Rightarrow> CppWM \<Rightarrow> XServer \<Rightarrow> wm_error + cpp_state" where
  "cpp_on_button_press e cw xs =
     (let (fr, cw1) = cpp_index (be_window e) cw;
          cw2 = cw1\<lparr>drag_start_pos_x := Some (be_x_root e), drag_start_pos_y := Some (be_y_root e)\<rparr>
      in case x_get_geometry fr xs of
           (None, _) \<Rightarrow> Inl UninitialisedRead
         | (Some (x, y, wd, ht, bw), xs1) \<Rightarrow>
             Inr (cw2\<lparr>drag_start_frame_pos_x := Some x, drag_start_frame_pos_y := Some y,
                       drag_start_frame_height := Some ht, drag_start_frame_width := Some wd\<rparr>,
                  x_raise_window fr xs1))"

text \<open>\<open>OnMotionNotify\<close>: the deltas are computed before the button test, so they read
  the drag fields on every motion event.\<close>

definition cpp_on_motion_notify :: "XMotionEvent \<Rightarrow> CppWM \<Rightarrow> XServer \<Rightarrow> wm_error + cpp_state" where
  "cpp_on_motion_notify e cw xs =
     (let (fr, cw1) = cpp_index (me_window e) cw
      in case (drag_start_pos_x cw1, drag_start_pos_y cw1) of
           (Some sx, Some sy) \<Rightarrow>
             (case (cpp_int_sub (me_x_root e) sx, cpp_int_sub (me_y_root e) sy) of
                (Inr dx, Inr dy) \<Rightarrow>
                  if me_state e AND Button1Mask \<noteq> 0
                  then (case (drag_start_frame_pos_x cw1, drag_start_frame_pos_y cw1) of
                          (Some fx, Some fy) \<Rightarrow>
                            (case (cpp_int_add fx dx, cpp_int_add fy dy) of
                               (Inr nx, Inr ny) \<Rightarrow> Inr (cw1, x_move_window fr nx ny xs)
                             | _ \<Rightarrow> Inl SignedOverflow)
                        | _ \<Rightarrow> Inl UninitialisedRead)
                  else Inr (cw1, xs)
              | _ \<Rightarrow> Inl SignedOverflow)
         | _ \<Rightarrow> Inl UninitialisedRead)"

subsection \<open>The event queue\<close>

text \<open>\<open>XCheckTypedWindowEvent(dpy, w, MotionNotify, &e)\<close> on the queued events: the first
  motion event for \<open>w\<close> is removed and returned; the others stay in order.\<close>

fun x_check_typed_window_event :: "window \<Rightarrow> XEvent list \<Rightarrow> (XMotionEvent \<times> XEvent list) option" where
  "x_check_typed_window_event w [] = None"
| "x_check_typed_window_event w (e # q) =
     (case e of
        MotionNotify m \<Rightarrow>
          if me_window m = w then Some (m, q)
          else map_option (\<lambda>(m', q'). (m', e # q')) (x_check_typed_window_event w q)
      | _ \<Rightarrow> map_option (\<lambda>(m', q'). (m', e # q')) (x_check_typed_window_event w q))"

text \<open>The loop \<open>while (XCheckTypedWindowEvent(...)) {}\<close> of \<open>Run\<close>: the last queued
  motion event for the window replaces the current one.\<close>

function cpp_coalesce_motion :: "XMotionEvent \<Rightarrow> XEvent list \<Rightarrow> XMotionEvent \<times> XEvent list" where
  "cpp_coalesce_motion m q =
     (case x_check_typed_window_event (me_window m) q of
        None \<Rightarrow> (m, q)
      | Some (m', q') \<Rightarrow> cpp_coalesce_motion m' q')"
  by pat_completeness auto
termination
proof (relation "measure (\<lambda>(m, q). length q)")
  have "x_check_typed_window_event w q = Some (m', q') \<Longrightarrow> length q' < length q" for w q m' q'
    by (induction w q arbitrary: q' rule: x_check_typed_window_event.induct)
       (auto split: XEvent.splits if_splits)
  then show "\<And>m q x2 m' q'. x_check_typed_window_event (me_window m) q = Some x2 \<Longrightarrow> (m', q') = x2 \<Longrightarrow>
               ((m', q'), m, q) \<in> measure (\<lambda>(m, q). length q)"
    by fastforce
qed simp

declare cpp_coalesce_motion.simps [simp del]

subsection \<open>Startup and event loop\<close>

text \<open>The loop of \<open>Run\<close> that frames the windows \<open>XQueryTree\<close> returned.\<close>

primrec cpp_frame_all :: "window list \<Rightarrow> CppWM \<Rightarrow> XServer \<Rightarrow> wm_error + cpp_state" where
  "cpp_frame_all [] cw xs = Inr (cw, xs)"
| "cpp_frame_all (w # ws) cw xs =
     (case cpp_frame w True cw xs of
        Inl e \<Rightarrow> Inl e
      | Inr (cw', xs') \<Rightarrow> cpp_frame_all ws cw' xs')"

text \<open>
  \<open>Run\<close> up to the event loop: the handshake under \<open>OnWMDetected\<close> (a rival window
  manager makes \<open>Run\<close> return, \<open>AnotherWMDetected\<close>), then \<open>OnXError\<close> and the re-scan
  under a server grab with \<open>CHECK(XQueryTree(...))\<close>. \<open>CHECK_EQ(returned_root, root_)\<close>
  always holds: the query is on the root itself.
\<close>

definition cpp_run_init :: "CppWM \<Rightarrow> XServer \<Rightarrow> wm_error + cpp_state" where
  "cpp_run_init cw xs =
     (let cw0 = cw\<lparr>cpp_wm_detected := False\<rparr>;
          xs1 = x_select_input (cpp_root cw0)
                  (SubstructureRedirectMask OR SubstructureNotifyMask OR ButtonPressMask) xs;
          (r, xs2) = x_sync cpp_on_wm_detected (Inr cw0) xs1
      in case r of
           Inl e \<Rightarrow> Inl e
         | Inr cw1 \<Rightarrow>
             if cpp_wm_detected cw1 then Inl AnotherWMDetected
             else
               let xs3 = x_grab_server xs2
               in case x_query_tree (cpp_root cw1) xs3 of
                    (None, _) \<Rightarrow> Inl CheckFailed
                  | (Some tops, xs4) \<Rightarrow>
                      (case cpp_frame_all tops cw1 xs4 of
                         Inl e \<Rightarrow> Inl e
                       | Inr (cw2, xs5) \<Rightarrow> Inr (cw2, x_ungrab_server xs5)))"

text \<open>The \<open>switch\<close> of \<open>Run\<close>'s event loop; the default case only logs.\<close>

fun cpp_handle_event :: "XEvent \<Rightarrow> CppWM \<Rightarrow> XServer \<Rightarrow> wm_error + cpp_state" where
  "cpp_handle_event (CreateNotify w) cw xs = Inr (cpp_on_create_notify w cw xs)"
| "cpp_handle_event (ConfigureRequest e) cw xs = Inr (cpp_on_configure_request e cw xs)"
| "cpp_handle_event (MapRequest w) cw xs = cpp_on_map_request w cw xs"
| "cpp_handle_event (MapNotify w) cw xs = Inr (cpp_on_map_notify w cw xs)"
| "cpp_handle_event (DestroyNotify w) cw xs = Inr (cpp_on_destroy_notify w cw xs)"
| "cpp_handle_event (ReparentNotify w) cw xs = Inr (cpp_on_reparent_notify w cw xs)"
| "cpp_handle_event (ConfigureNotify w) cw xs = Inr (cpp_on_configure_notify w cw xs)"
| "cpp_handle_event (ButtonPress e) cw xs = cpp_on_button_press e cw xs"
| "cpp_handle_event (MotionNotify e) cw xs = cpp_on_motion_notify e cw xs"
| "cpp_handle_event (UnmapNotify e) cw xs = Inr (cpp_on_unmap_notify e cw xs)"
| "cpp_handle_event _ cw xs = Inr (cw, xs)"

text \<open>\<open>XNextEvent\<close> followed, for a motion event, by the coalescing loop.\<close>

fun cpp_next_event :: "XEvent list \<Rightarrow> (XEvent \<times> XEvent list) option" where
  "cpp_next_event [] = None"
| "cpp_next_event (MotionNotify m # q) =
     Some (case cpp_coalesce_motion m q of (m', q') \<Rightarrow> (MotionNotify m', q'))"
| "cpp_next_event (e # q) = Some (e, q)"

text \<open>The event loop on the queued events, stopping at an abort.\<close>

function cpp_run :: "XEvent list \<Rightarrow> CppWM \<Rightarrow> XServer \<Rightarrow> wm_error + cpp_state" where
  "cpp_run q cw xs =
     (case cpp_next_event q of
        None \<Rightarrow> Inr (cw, xs)
      | Some (e, q') \<Rightarrow>
          (case cpp_handle_event e cw xs of
             Inl err \<Rightarrow> Inl err
           | Inr (cw', xs') \<Rightarrow> cpp_run q' cw' xs'))"
  by pat_completeness auto
termination
proof (relation "measure (\<lambda>(q, cw, xs). length q)")
  have chk: "x_check_typed_window_event w q = Some (m', q') \<Longrightarrow> length q' < length q" for w q m' q'
    by (induction w q arbitrary: q' rule: x_check_typed_window_event.induct)
       (auto split: XEvent.splits if_splits)
  have co: "length (snd (cpp_coalesce_motion m q)) \<le> length q" for m q
  proof (induction m q rule: cpp_coalesce_motion.induct)
    case (1 m q)
    show ?case
    proof (cases "x_check_typed_window_event (me_window m) q")
      case None
      then show ?thesis by (simp add: cpp_coalesce_motion.simps [of m q])
    next
      case (Some r)
      obtain m' q' where r: "r = (m', q')" by (cases r)
      have "length (snd (cpp_coalesce_motion m' q')) \<le> length q'"
        using "1" Some r by blast
      moreover have "length q' < length q" using chk Some r by blast
      ultimately show ?thesis using Some r by (simp add: cpp_coalesce_motion.simps [of m q])
    qed
  qed
  have nx: "cpp_next_event q = Some (e, q') \<Longrightarrow> length q' < length q" for q e q'
  proof (cases q)
    case Nil
    then show "cpp_next_event q = Some (e, q') \<Longrightarrow> length q' < length q" by simp
  next
    case (Cons e0 q0)
    assume n: "cpp_next_event q = Some (e, q')"
    show ?thesis
    proof (cases "\<exists>m. e0 = MotionNotify m")
      case True
      then obtain m where m: "e0 = MotionNotify m" by blast
      then have "q' = snd (cpp_coalesce_motion m q0)"
        using n Cons by (simp split: prod.splits)
      then show ?thesis using co [of m q0] Cons by simp
    next
      case False
      then have "q' = q0"
        using n Cons by (cases e0) simp_all
      then show ?thesis using Cons by simp
    qed
  qed
  then show "\<And>q cw xs x2 e q' x2a cw' xs'. cpp_next_event q = Some x2 \<Longrightarrow> (e, q') = x2 \<Longrightarrow>
      cpp_handle_event e cw xs = Inr x2a \<Longrightarrow> (cw', xs') = x2a \<Longrightarrow>
      ((q', cw', xs'), q, cw, xs) \<in> measure (\<lambda>(q, cw, xs). length q)"
    by fastforce
qed simp

declare cpp_run.simps [simp del]

text \<open>A whole run: \<open>Create\<close>, then \<open>Run\<close> on the queued events.\<close>

definition cpp_main :: "XServer option \<Rightarrow> XEvent list \<Rightarrow> wm_error + cpp_state" where
  "cpp_main d es =
     (case (cpp_create d, d) of
        (Inr cw, Some xs) \<Rightarrow>
          (case cpp_run_init cw xs of
             Inl e \<Rightarrow> Inl e
           | Inr (cw', xs') \<Rightarrow> cpp_run es cw' xs')
      | (Inl e, _) \<Rightarrow> Inl e
      | (Inr _, None) \<Rightarrow> Inl DisplayOpenFailed)"

end
