(* ===== verification/Registry_Tree.thy ===== *)
theory Registry_Tree
  imports XServer
begin

text \<open>
  The interface between a window manager's registry and the window tree, shared by
  the C and the C++ implementations. A registry is a partial map from client to frame
  (the C array read through \<open>registry_of\<close>, the C++ \<open>clients_\<close> as it is).
  \<open>reg_tree_inv m xs\<close>: the server is well-formed, the registry is a bijection, no
  window is both a client and a frame, clients are allocated ids other than the root,
  and every frame is a child of the root. Both implementations frame a window with the
  same tree effect (create under the root, requests that keep the tree, save set,
  reparent, map) and unframe it with the same four requests, so the two lemmas below
  carry the invariant through the handlers of both.
\<close>

definition reg_tree_inv :: "(window \<rightharpoonup> window) \<Rightarrow> XServer \<Rightarrow> bool" where
  "reg_tree_inv m xs \<longleftrightarrow>
     xs_wf xs \<and>
     (\<forall>c f. m c = Some f \<longrightarrow>
        c < xs_next_id xs \<and> c \<noteq> xs_root xs \<and> f \<noteq> xs_root xs \<and>
        x_parent_of xs f = Some (xs_root xs)) \<and>
     inj_on m (dom m) \<and> dom m \<inter> ran m = {}"

text \<open>A window the registry may take on: allocated, not the root, neither a client nor
  a frame. The first \<open>MapRequest\<close> the X server delivers for a top-level window names
  such a window, and \<open>XQueryTree\<close> on the root returns only such windows while the
  registry is empty. A second \<open>MapRequest\<close> for a window that is by then managed is
  possible (the client mapped it twice) and is not such a window
  (\<open>owen_cpp_map_request_twice\<close>).\<close>

definition reg_fresh :: "(window \<rightharpoonup> window) \<Rightarrow> XServer \<Rightarrow> window \<Rightarrow> bool" where
  "reg_fresh m xs w \<longleftrightarrow> w < xs_next_id xs \<and> w \<noteq> xs_root xs \<and> m w = None \<and> w \<notin> ran m"

lemma reg_fresh_mono:
  "reg_fresh m xs v \<Longrightarrow> xs_root xs' = xs_root xs \<Longrightarrow> xs_next_id xs \<le> xs_next_id xs' \<Longrightarrow>
   reg_fresh m xs' v"
  by (auto simp: reg_fresh_def)

text \<open>Framing \<open>w\<close> with the next id leaves every other fresh window fresh.\<close>

lemma reg_fresh_upd:
  "reg_fresh m xs v \<Longrightarrow> v \<noteq> w \<Longrightarrow> m w = None \<Longrightarrow> xs_root xs' = xs_root xs \<Longrightarrow>
   xs_next_id xs \<le> xs_next_id xs' \<Longrightarrow> reg_fresh (m(w \<mapsto> xs_next_id xs)) xs' v"
  by (auto simp: reg_fresh_def ran_map_upd)

lemma reg_tree_inv_frames_fresh:
  assumes "reg_tree_inv m xs" "m c = Some f"
  shows "c < xs_next_id xs" "f < xs_next_id xs" "c \<noteq> xs_root xs" "f \<noteq> xs_root xs"
    "x_parent_of xs f = Some (xs_root xs)"
  using assms by (auto simp: reg_tree_inv_def xs_wf_def x_exists_parent_of)

lemma reg_tree_inv_same_tree:
  "reg_tree_inv m xs \<Longrightarrow> x_same_tree xs xs' \<Longrightarrow> reg_tree_inv m xs'"
  by (simp add: reg_tree_inv_def x_same_tree_wf) (simp add: x_same_tree_def)

lemma xs_wf_parent_lt:
  "xs_wf xs \<Longrightarrow> x_parent_of xs v = Some p \<Longrightarrow> p < xs_next_id xs"
  unfolding xs_wf_def by blast

lemma xs_wf_root_lt: "xs_wf xs \<Longrightarrow> xs_root xs < xs_next_id xs"
  using xs_wf_root_exists by (simp add: xs_wf_def)

subsection \<open>Framing\<close>

text \<open>The tail both implementations run after creating a frame \<open>fr\<close> under \<open>p\<close>:
  requests that keep the tree (\<open>X\<close>), then save set, reparenting and mapping.\<close>

lemma frame_sequence_tree:
  fixes xs X :: XServer and fr w p :: window and x y wd ht bw :: int and bc bg :: nat
  assumes ex: "x_exists xs p" and fr: "fr = xs_next_id xs" and w: "w \<noteq> fr"
    and mid: "x_same_tree (snd (x_create_simple_window p x y wd ht bw bc bg xs)) X"
  defines "xs5 \<equiv> x_map_window fr (x_reparent_window w fr 0 0 (x_add_to_save_set w X))"
  shows "x_parent_of xs5 = (if x_exists xs w then ((x_parent_of xs)(fr \<mapsto> p))(w \<mapsto> fr)
                             else (x_parent_of xs)(fr \<mapsto> p))"
    and "xs_root xs5 = xs_root xs" and "xs_next_id xs5 = Suc (xs_next_id xs)"
proof -
  let ?xs1 = "snd (x_create_simple_window p x y wd ht bw bc bg xs)"
  have t1: "x_parent_of ?xs1 = (x_parent_of xs)(fr \<mapsto> p)" "xs_root ?xs1 = xs_root xs"
      "xs_next_id ?xs1 = Suc (xs_next_id xs)"
    using x_create_simple_window_tree [OF ex] fr by simp_all
  let ?xs3 = "x_add_to_save_set w X"
  have s3: "x_same_tree ?xs1 ?xs3"
    using mid x_same_tree_ops(3) x_same_tree_trans by blast
  have fr_ex: "x_exists ?xs3 fr"
    using s3 t1 by (simp add: x_same_tree_def x_exists_parent_of)
  have w_ex: "x_exists ?xs3 w = x_exists xs w"
    using s3 t1 w by (simp add: x_same_tree_def x_exists_parent_of)
  let ?xs4 = "x_reparent_window w fr 0 0 ?xs3"
  have t4: "x_parent_of ?xs4 = (if x_exists xs w then (x_parent_of ?xs1)(w \<mapsto> fr) else x_parent_of ?xs1)"
      "xs_root ?xs4 = xs_root ?xs1" "xs_next_id ?xs4 = xs_next_id ?xs1"
    using x_reparent_window_tree [OF fr_ex, of w 0 0] w_ex s3 by (simp_all add: x_same_tree_def)
  have "x_same_tree ?xs4 xs5"
    by (simp add: xs5_def x_same_tree_ops)
  then show "x_parent_of xs5 = (if x_exists xs w then ((x_parent_of xs)(fr \<mapsto> p))(w \<mapsto> fr)
                             else (x_parent_of xs)(fr \<mapsto> p))"
    and "xs_root xs5 = xs_root xs" and "xs_next_id xs5 = Suc (xs_next_id xs)"
    using t1 t4 by (simp_all add: x_same_tree_def)
qed

text \<open>Registering a fresh frame for a new client keeps the interface invariant,
  whatever requests in between kept the tree.\<close>

lemma reg_tree_inv_frame:
  assumes inv: "reg_tree_inv m xs"
    and ok: "reg_fresh m xs w"
    and po: "x_parent_of xs' = (if x_exists xs w
                 then ((x_parent_of xs)(xs_next_id xs \<mapsto> xs_root xs))(w \<mapsto> xs_next_id xs)
                 else (x_parent_of xs)(xs_next_id xs \<mapsto> xs_root xs))"
    and rt: "xs_root xs' = xs_root xs" and nx: "xs_next_id xs' = Suc (xs_next_id xs)"
  shows "reg_tree_inv (m(w \<mapsto> xs_next_id xs)) xs'"
proof -
  let ?n = "xs_next_id xs" and ?r = "xs_root xs"
  have xwf: "xs_wf xs" and inj: "inj_on m (dom m)" and disj: "dom m \<inter> ran m = {}"
    using inv by (simp_all add: reg_tree_inv_def)
  have okw: "w < ?n" "w \<noteq> ?r" "m w = None" "w \<notin> ran m"
    using ok by (simp_all add: reg_fresh_def)
  have root_lt: "?r < ?n" by (rule xs_wf_root_lt [OF xwf])
  have frames: "m c = Some f \<Longrightarrow> c < ?n \<and> f < ?n \<and> c \<noteq> ?r \<and> f \<noteq> ?r \<and>
                  x_parent_of xs f = Some ?r" for c f
    using reg_tree_inv_frames_fresh [OF inv] by blast
  have n_ran: "?n \<notin> ran m" and n_dom: "?n \<notin> dom m"
    using frames by (auto simp: ran_def)
  have pv: "x_parent_of xs' v =
      (if v = w \<and> x_exists xs w then Some ?n else if v = ?n then Some ?r else x_parent_of xs v)" for v
    using po okw(1) by auto
  have wf': "xs_wf xs'"
  proof -
    have "x_parent_of xs' (xs_root xs') = Some 0"
      using pv [of ?r] rt okw(2) root_lt xwf by (simp add: xs_wf_def)
    moreover have "\<not> x_exists xs' 0"
      using pv [of 0] xwf okw(1) by (cases "w = 0") (auto simp: xs_wf_def x_exists_parent_of)
    moreover have "x_exists xs' v \<Longrightarrow> v < xs_next_id xs'" for v
      using pv [of v] nx xwf okw(1) by (auto simp: x_exists_parent_of xs_wf_def split: if_splits)
    moreover have "x_parent_of xs' v = Some p \<Longrightarrow> p < xs_next_id xs'" for v p
    proof -
      assume h: "x_parent_of xs' v = Some p"
      have "p = ?n \<or> p = ?r \<or> x_parent_of xs v = Some p"
        using h pv [of v] by (auto split: if_splits)
      then show ?thesis
        using xs_wf_parent_lt [OF xwf, of v p] root_lt nx by auto
    qed
    ultimately show ?thesis by (simp add: xs_wf_def)
  qed
  have frames': "(m(w \<mapsto> ?n)) c = Some f \<Longrightarrow>
      c < xs_next_id xs' \<and> c \<noteq> xs_root xs' \<and> f \<noteq> xs_root xs' \<and> x_parent_of xs' f = Some (xs_root xs')"
    for c f
  proof (cases "c = w")
    case True
    moreover assume "(m(w \<mapsto> ?n)) c = Some f"
    ultimately show ?thesis
      using pv [of ?n] rt nx okw root_lt by auto
  next
    case False
    moreover assume "(m(w \<mapsto> ?n)) c = Some f"
    ultimately have "m c = Some f" by simp
    moreover have "f \<noteq> w" using okw(4) \<open>m c = Some f\<close> by (auto simp: ran_def)
    ultimately show ?thesis
      using frames [of c f] pv [of f] rt nx by auto
  qed
  have inj': "inj_on (m(w \<mapsto> ?n)) (dom (m(w \<mapsto> ?n)))"
    by (rule inj_on_dom_upd [OF okw(3) n_ran inj])
  have disj': "dom (m(w \<mapsto> ?n)) \<inter> ran (m(w \<mapsto> ?n)) = {}"
    using disj okw n_dom by (auto simp: ran_map_upd)
  show ?thesis
    unfolding reg_tree_inv_def using wf' frames' inj' disj' by blast
qed

subsection \<open>Unframing\<close>

text \<open>The four requests both implementations send to unframe a client \<open>w\<close> from its
  frame \<open>f\<close>, and their effect on the tree.\<close>

lemma owen_unframe_server:
  fixes xs :: XServer
  assumes wf: "xs_wf xs" and f: "x_parent_of xs f = Some (xs_root xs)" "f \<noteq> xs_root xs"
    and w: "w \<noteq> f"
  defines "xs4 \<equiv> x_destroy_window f (x_remove_from_save_set w
                   (x_reparent_window w (xs_root xs) 0 0 (x_unmap_window f xs)))"
  shows "x_parent_of xs4 v =
           (if v = f then None
            else if v = w \<and> x_exists xs w then Some (xs_root xs)
            else if x_parent_of xs v = Some f then None else x_parent_of xs v)"
    and "xs_root xs4 = xs_root xs" and "xs_next_id xs4 = xs_next_id xs"
proof -
  let ?xs1 = "x_unmap_window f xs"
  have s1: "x_same_tree xs ?xs1" by (rule x_same_tree_ops)
  have rt1: "x_exists ?xs1 (xs_root xs)"
    using s1 xs_wf_root_exists [OF wf] by (simp add: x_same_tree_exists)
  let ?xs2 = "x_reparent_window w (xs_root xs) 0 0 ?xs1"
  have t2: "x_parent_of ?xs2 = (if x_exists xs w then (x_parent_of xs)(w \<mapsto> xs_root xs) else x_parent_of xs)"
      "xs_root ?xs2 = xs_root xs" "xs_next_id ?xs2 = xs_next_id xs"
    using x_reparent_window_tree [OF rt1, of w 0 0] s1 by (simp_all add: x_same_tree_def x_same_tree_exists [OF s1])
  let ?xs3 = "x_remove_from_save_set w ?xs2"
  have s3: "x_same_tree ?xs2 ?xs3" by (rule x_same_tree_ops)
  have fex: "x_exists ?xs3 f"
    using s3 t2 f w by (simp add: x_same_tree_def x_exists_parent_of)
  have fnr: "f \<noteq> xs_root ?xs3"
    using s3 t2 f by (simp add: x_same_tree_def)
  note t4 = x_destroy_window_tree [OF fex fnr]
  have po3: "x_parent_of ?xs3 = x_parent_of ?xs2" "xs_root ?xs3 = xs_root xs" "xs_next_id ?xs3 = xs_next_id xs"
    using s3 t2 by (simp_all add: x_same_tree_def)
  show "x_parent_of xs4 v =
           (if v = f then None
            else if v = w \<and> x_exists xs w then Some (xs_root xs)
            else if x_parent_of xs v = Some f then None else x_parent_of xs v)"
    using t4(1) po3(1) t2(1) f(2) unfolding xs4_def by (auto simp: fun_eq_iff)
  show "xs_root xs4 = xs_root xs" "xs_next_id xs4 = xs_next_id xs"
    using t4(2,3) po3 unfolding xs4_def by simp_all
qed

lemma reg_tree_inv_unframe:
  assumes inv: "reg_tree_inv m xs" and reg: "m w = Some f"
  shows "reg_tree_inv (m(w := None)) (x_destroy_window f (x_remove_from_save_set w
           (x_reparent_window w (xs_root xs) 0 0 (x_unmap_window f xs)))) \<and>
         xs_root (x_destroy_window f (x_remove_from_save_set w
           (x_reparent_window w (xs_root xs) 0 0 (x_unmap_window f xs)))) = xs_root xs"
    (is "reg_tree_inv _ ?xs' \<and> _")
proof -
  let ?r = "xs_root xs"
  have xwf: "xs_wf xs" and inj: "inj_on m (dom m)" and disj: "dom m \<inter> ran m = {}"
    using inv by (simp_all add: reg_tree_inv_def)
  have fw: "w < xs_next_id xs" "f < xs_next_id xs" "w \<noteq> ?r" "f \<noteq> ?r" "x_parent_of xs f = Some ?r"
    using reg_tree_inv_frames_fresh [OF inv reg] by simp_all
  have wf_ne: "w \<noteq> f"
    using disj reg by (auto simp: ran_def)
  note srv = owen_unframe_server [OF xwf fw(5) fw(4) wf_ne]
  have f0: "f \<noteq> 0" and w0: "x_exists xs w \<Longrightarrow> w \<noteq> 0"
    using xs_wf_exists_nonzero [OF xwf] fw(5) by (simp_all add: x_exists_parent_of)
  have wf': "xs_wf ?xs'"
  proof -
    have "x_parent_of ?xs' (xs_root ?xs') = Some 0"
      using srv(1) [of ?r] srv(2) fw(3,4) f0 xwf by (simp add: xs_wf_def)
    moreover have "\<not> x_exists ?xs' 0"
      using srv(1) [of 0] f0 w0 xwf by (auto simp: xs_wf_def x_exists_parent_of)
    moreover have "x_exists ?xs' v \<Longrightarrow> v < xs_next_id ?xs'" for v
      using srv(1) [of v] srv(3) xwf by (auto simp: xs_wf_def x_exists_parent_of split: if_splits)
    moreover have "x_parent_of ?xs' v = Some p \<Longrightarrow> p < xs_next_id ?xs'" for v p
    proof -
      assume h: "x_parent_of ?xs' v = Some p"
      have "p = ?r \<or> x_parent_of xs v = Some p"
        using h srv(1) [of v] by (auto split: if_splits)
      then show ?thesis
        using xs_wf_parent_lt [OF xwf, of v p] xs_wf_root_lt [OF xwf] srv(3) by auto
    qed
    ultimately show ?thesis by (simp add: xs_wf_def)
  qed
  have frames': "(m(w := None)) c = Some f' \<Longrightarrow>
      c < xs_next_id ?xs' \<and> c \<noteq> xs_root ?xs' \<and> f' \<noteq> xs_root ?xs' \<and> x_parent_of ?xs' f' = Some (xs_root ?xs')"
    for c f'
  proof -
    assume "(m(w := None)) c = Some f'"
    then have c: "c \<noteq> w" "m c = Some f'" by (auto split: if_splits)
    have "f' \<noteq> f"
      using inj_onD [OF inj, of c w] c reg by auto
    moreover have "f' \<noteq> w"
      using disj c(2) reg by (auto simp: ran_def)
    ultimately show ?thesis
      using reg_tree_inv_frames_fresh [OF inv c(2)] srv(1) [of f'] srv(2,3) fw(4) by auto
  qed
  have inj': "inj_on (m(w := None)) (dom (m(w := None)))"
    by (rule inj_on_dom_remove [OF inj])
  have disj': "dom (m(w := None)) \<inter> ran (m(w := None)) = {}"
    using disj ran_remove_inj [OF inj reg] by auto
  show ?thesis
    unfolding reg_tree_inv_def using wf' frames' inj' disj' srv(2) by blast
qed

subsection \<open>The startup re-scan\<close>

text \<open>\<open>XQueryTree\<close> on the root of a well-formed server returns distinct windows, each
  fresh for an empty registry: both implementations frame exactly these at startup.\<close>

lemma x_query_tree_root_fresh:
  assumes wf: "xs_wf xs" and dist: "distinct (xs_stack xs)"
  obtains tops xs' where "x_query_tree (xs_root xs) xs = (Some tops, xs')" "distinct tops"
    "\<forall>w \<in> set tops. reg_fresh Map.empty xs' w" "x_same_tree xs xs'"
proof -
  let ?tops = "filter (\<lambda>v. case xs_windows xs v of Some u \<Rightarrow> xw_parent u = xs_root xs | None \<Rightarrow> False)
                 (xs_stack xs)"
  obtain xs' where qt: "x_query_tree (xs_root xs) xs = (Some ?tops, xs')"
    using xs_wf_root_exists [OF wf] by (simp add: x_query_tree_def Let_def)
  have s: "x_same_tree xs xs'"
    using x_same_tree_ops(14) [of xs "xs_root xs"] qt by simp
  have "reg_fresh Map.empty xs' w" if "w \<in> set ?tops" for w
  proof -
    have pw: "x_parent_of xs w = Some (xs_root xs)"
      using that by (auto simp: x_parent_of_def split: option.splits)
    then have "w < xs_next_id xs"
      using wf by (auto simp: xs_wf_def x_exists_parent_of)
    moreover have "w \<noteq> xs_root xs"
      using pw wf xs_wf_exists_nonzero [OF wf xs_wf_root_exists [OF wf]] by (auto simp: xs_wf_def)
    ultimately show ?thesis
      using s by (simp add: reg_fresh_def x_same_tree_def)
  qed
  then show ?thesis
    using that qt dist s by simp
qed

end
