(* ===== verification/Save_Set.thy ===== *)
theory Save_Set
  imports Registry_Tree
begin

text \<open>
  Crash safety of a reparenting window manager (spec section 3, step 6, and the
  glossary entry "save set"). \<open>save_set_inv m xs\<close> relates a registry \<open>m\<close> to what
  the server knows of the window manager's connection: the windows the connection
  owns are exactly the frames, every managed client that exists is in the save set
  and is a child of its frame, and the only child of a frame is its client. Both
  implementations keep it, because framing and unframing send the same requests
  (\<open>save_set_inv_frame\<close>, \<open>save_set_inv_unframe\<close>). Under it the close-down of the
  connection (\<open>x_close_display\<close>: \<open>XCloseDisplay\<close> or the end of the process) gives
  every client back to the root, mapped and where it was on the screen, destroys every
  frame and destroys no other window (\<open>x_close_display_registry\<close>,
  \<open>x_close_display_safe\<close>).
\<close>

definition x_same_env :: "XServer \<Rightarrow> XServer \<Rightarrow> bool" where
  "x_same_env xs xs' \<longleftrightarrow>
     x_same_tree xs xs' \<and> xs_save_set xs' = xs_save_set xs \<and> xs_owned xs' = xs_owned xs"

definition save_set_inv :: "(window \<rightharpoonup> window) \<Rightarrow> XServer \<Rightarrow> bool" where
  "save_set_inv m xs \<longleftrightarrow>
     xs_owned xs = ran m \<and>
     (\<forall>c f. m c = Some f \<longrightarrow> x_exists xs c \<longrightarrow>
        c \<in> xs_save_set xs \<and> x_parent_of xs c = Some f) \<and>
     (\<forall>v f. x_parent_of xs v = Some f \<longrightarrow> f \<in> ran m \<longrightarrow> m v = Some f)"

subsection \<open>Requests and the connection's resources\<close>

lemma x_same_env_refl [simp]: "x_same_env xs xs"
  by (simp add: x_same_env_def)

lemma x_same_env_trans: "x_same_env xs ys \<Longrightarrow> x_same_env ys zs \<Longrightarrow> x_same_env xs zs"
  by (auto simp: x_same_env_def intro: x_same_tree_trans)

lemma x_same_env_tree: "x_same_env xs xs' \<Longrightarrow> x_same_tree xs xs'"
  by (simp add: x_same_env_def)

lemma x_env_keep:
  "xs_save_set (x_select_input w m xs) = xs_save_set xs \<and> xs_owned (x_select_input w m xs) = xs_owned xs"
  "xs_save_set (x_grab_button w xs) = xs_save_set xs \<and> xs_owned (x_grab_button w xs) = xs_owned xs"
  "xs_save_set (x_map_window w xs) = xs_save_set xs \<and> xs_owned (x_map_window w xs) = xs_owned xs"
  "xs_save_set (x_unmap_window w xs) = xs_save_set xs \<and> xs_owned (x_unmap_window w xs) = xs_owned xs"
  "xs_save_set (x_configure_window w m c xs) = xs_save_set xs \<and> xs_owned (x_configure_window w m c xs) = xs_owned xs"
  "xs_save_set (x_move_window w x y xs) = xs_save_set xs \<and> xs_owned (x_move_window w x y xs) = xs_owned xs"
  "xs_save_set (x_raise_window w xs) = xs_save_set xs \<and> xs_owned (x_raise_window w xs) = xs_owned xs"
  "xs_save_set (x_grab_server xs) = xs_save_set xs \<and> xs_owned (x_grab_server xs) = xs_owned xs"
  "xs_save_set (x_ungrab_server xs) = xs_save_set xs \<and> xs_owned (x_ungrab_server xs) = xs_owned xs"
  "xs_save_set (snd (x_get_window_attributes w xs)) = xs_save_set xs \<and> xs_owned (snd (x_get_window_attributes w xs)) = xs_owned xs"
  "xs_save_set (snd (x_get_geometry w xs)) = xs_save_set xs \<and> xs_owned (snd (x_get_geometry w xs)) = xs_owned xs"
  "xs_save_set (snd (x_query_tree w xs)) = xs_save_set xs \<and> xs_owned (snd (x_query_tree w xs)) = xs_owned xs"
  "xs_save_set (snd (x_sync h st xs)) = xs_save_set xs \<and> xs_owned (snd (x_sync h st xs)) = xs_owned xs"
  by (simp_all add: x_unfold Let_def split: option.splits)

lemma x_same_env_ops:
  "x_same_env xs (x_select_input w m xs)"
  "x_same_env xs (x_grab_button w xs)"
  "x_same_env xs (x_map_window w xs)"
  "x_same_env xs (x_unmap_window w xs)"
  "x_same_env xs (x_configure_window w m c xs)"
  "x_same_env xs (x_move_window w x y xs)"
  "x_same_env xs (x_raise_window w xs)"
  "x_same_env xs (x_grab_server xs)"
  "x_same_env xs (x_ungrab_server xs)"
  "x_same_env xs (snd (x_get_window_attributes w xs))"
  "x_same_env xs (snd (x_get_geometry w xs))"
  "x_same_env xs (snd (x_query_tree w xs))"
  "x_same_env xs (snd (x_sync h st xs))"
  by (simp_all only: x_same_env_def x_same_tree_ops x_env_keep simp_thms)

lemma x_env_requests:
  "x_exists xs p \<Longrightarrow>
   xs_owned (snd (x_create_simple_window p x y wd ht bw bc bg xs)) = insert (xs_next_id xs) (xs_owned xs)"
  "xs_save_set (snd (x_create_simple_window p x y wd ht bw bc bg xs)) = xs_save_set xs"
  "xs_save_set (x_add_to_save_set w xs) = (if x_exists xs w then insert w (xs_save_set xs) else xs_save_set xs)"
  "xs_owned (x_add_to_save_set w xs) = xs_owned xs"
  "xs_save_set (x_remove_from_save_set w xs) = (if x_exists xs w then xs_save_set xs - {w} else xs_save_set xs)"
  "xs_owned (x_remove_from_save_set w xs) = xs_owned xs"
  "xs_save_set (x_reparent_window w p x y xs) = xs_save_set xs"
  "xs_owned (x_reparent_window w p x y xs) = xs_owned xs"
  "x_exists xs w \<Longrightarrow> w \<noteq> xs_root xs \<Longrightarrow>
   xs_save_set (x_destroy_window w xs) = {v \<in> xs_save_set xs. \<not> x_doomed xs w v}"
  "x_exists xs w \<Longrightarrow> w \<noteq> xs_root xs \<Longrightarrow>
   xs_owned (x_destroy_window w xs) = {v \<in> xs_owned xs. \<not> x_doomed xs w v}"
  by (simp_all add: x_unfold Let_def split: option.splits)

lemma x_doomed_parent: "x_doomed xs w v \<longleftrightarrow> v = w \<or> x_parent_of xs v = Some w"
  by (simp add: x_doomed_def x_parent_of_def split: option.splits)

lemma save_set_inv_same_env:
  assumes "save_set_inv m xs" "x_same_env xs xs'"
  shows "save_set_inv m xs'"
proof -
  have t: "x_same_tree xs xs'" and ss: "xs_save_set xs' = xs_save_set xs" and ow: "xs_owned xs' = xs_owned xs"
    using assms(2) unfolding x_same_env_def by blast+
  have p: "x_parent_of xs' = x_parent_of xs" by (rule x_same_tree_parent [OF t])
  have e: "x_exists xs' = x_exists xs" by (rule ext) (rule x_same_tree_exists [OF t])
  show ?thesis using assms(1) unfolding save_set_inv_def p ss ow e .
qed

lemma save_set_inv_empty: "xs_owned xs = {} \<Longrightarrow> save_set_inv Map.empty xs"
  by (simp add: save_set_inv_def)

subsection \<open>Framing and unframing\<close>

text \<open>The framing sequence of both implementations, after the frame is created under the
  root and requests that keep the connection's resources (\<open>X\<close>).\<close>

lemma save_set_inv_frame:
  assumes rinv: "reg_tree_inv m xs" and sinv: "save_set_inv m xs" and ok: "reg_fresh m xs w"
    and mid: "x_same_env (snd (x_create_simple_window (xs_root xs) x y wd ht bw bc bg xs)) X"
  shows "save_set_inv (m(w \<mapsto> xs_next_id xs))
           (x_map_window (xs_next_id xs) (x_reparent_window w (xs_next_id xs) 0 0 (x_add_to_save_set w X)))"
    (is "save_set_inv ?m' ?xs5")
proof -
  let ?n = "xs_next_id xs" and ?r = "xs_root xs"
  let ?xs1 = "snd (x_create_simple_window ?r x y wd ht bw bc bg xs)"
  have xwf: "xs_wf xs" and rr: "?r \<notin> ran m" using rinv
    by (auto simp: reg_tree_inv_def ran_def)
  have okw: "w < ?n" "w \<noteq> ?r" "m w = None" "w \<notin> ran m"
    using ok by (simp_all add: reg_fresh_def)
  have ex: "x_exists xs ?r" by (rule xs_wf_root_exists [OF xwf])
  have rn: "?r \<noteq> ?n" using xs_wf_root_lt [OF xwf] by simp
  note tr = frame_sequence_tree [OF ex refl _ x_same_env_tree [OF mid], of w]
  define xs5 where "xs5 = ?xs5"
  have pv: "x_parent_of xs5 v =
      (if v = w \<and> x_exists xs w then Some ?n else if v = ?n then Some ?r else x_parent_of xs v)" for v
    using tr(1) okw(1) unfolding xs5_def by auto
  have menv: "xs_save_set X = xs_save_set xs" "xs_owned X = insert ?n (xs_owned xs)"
      "x_parent_of X = (x_parent_of xs)(?n \<mapsto> ?r)"
    using mid x_env_requests(1,2) ex x_create_simple_window_tree(1) [OF ex]
    by (simp_all add: x_same_env_def x_same_tree_def)
  have wX: "x_exists X w = x_exists xs w"
    using menv(3) okw(1) by (simp add: x_exists_parent_of)
  have so: "xs_owned xs = ran m" using sinv unfolding save_set_inv_def by blast
  have o5: "xs_owned xs5 = xs_owned X" and s5: "xs_save_set xs5 = xs_save_set (x_add_to_save_set w X)"
    using x_env_keep(3) x_env_requests(4,7,8) unfolding xs5_def by simp_all
  have own: "xs_owned xs5 = ran ?m'"
    using o5 menv(2) so okw(3) by (simp add: ran_map_upd)
  have ss: "xs_save_set xs5 = (if x_exists xs w then insert w (xs_save_set xs) else xs_save_set xs)"
    unfolding s5 x_env_requests(3) wX menv(1) ..
  have c2: "c \<in> xs_save_set xs5 \<and> x_parent_of xs5 c = Some f"
    if "?m' c = Some f" "x_exists xs5 c" for c f
  proof (cases "c = w")
    case True
    have "x_exists xs w"
    proof (rule ccontr)
      assume "\<not> x_exists xs w"
      then have "x_parent_of xs5 w = x_parent_of xs w" using pv [of w] okw(1) by simp
      then show False using that(2) \<open>\<not> x_exists xs w\<close> True unfolding x_exists_parent_of by simp
    qed
    then show ?thesis using True that(1) ss pv [of w] by simp
  next
    case False
    then have mc: "m c = Some f" using that(1) by simp
    have cn: "c \<noteq> ?n" using reg_tree_inv_frames_fresh(1) [OF rinv mc] by simp
    have e5: "x_parent_of xs5 c = x_parent_of xs c" using pv [of c] False cn by simp
    have "x_exists xs c" using that(2) unfolding x_exists_parent_of e5 .
    then have "c \<in> xs_save_set xs \<and> x_parent_of xs c = Some f"
      using sinv mc unfolding save_set_inv_def by blast
    then show ?thesis using ss e5 by simp
  qed
  have c3: "?m' v = Some g" if "x_parent_of xs5 v = Some g" "g \<in> ran ?m'" for v g
  proof -
    have g: "g = ?n \<or> g \<in> ran m" using that(2) okw(3) by (simp add: ran_map_upd)
    consider (w) "v = w" "x_exists xs w" | (n) "\<not> (v = w \<and> x_exists xs w)" "v = ?n"
      | (o) "\<not> (v = w \<and> x_exists xs w)" "v \<noteq> ?n" by blast
    then show ?thesis
    proof cases
      case w then show ?thesis using that(1) pv [of v] by simp
    next
      case n then show ?thesis using that(1) pv [of v] g rn rr okw(1) by auto
    next
      case o
      then have pg: "x_parent_of xs v = Some g" using that(1) pv [of v] by (auto split: if_splits)
      then have "g \<noteq> ?n" using xs_wf_parent_lt [OF xwf pg] by simp
      moreover have "\<forall>v f. x_parent_of xs v = Some f \<longrightarrow> f \<in> ran m \<longrightarrow> m v = Some f"
        using sinv unfolding save_set_inv_def by blast
      ultimately have "m v = Some g" using g pg by blast
      then show ?thesis using okw(3) by auto
    qed
  qed
  have "save_set_inv ?m' xs5" unfolding save_set_inv_def using own c2 c3 by blast
  then show ?thesis by (simp only: xs5_def)
qed

text \<open>The unframing sequence of both implementations.\<close>

lemma save_set_inv_unframe:
  assumes rinv: "reg_tree_inv m xs" and sinv: "save_set_inv m xs" and reg: "m w = Some f"
  shows "save_set_inv (m(w := None)) (x_destroy_window f (x_remove_from_save_set w
           (x_reparent_window w (xs_root xs) 0 0 (x_unmap_window f xs))))"
proof -
  let ?r = "xs_root xs" and ?m' = "m(w := None)"
  define xs1 where "xs1 = x_unmap_window f xs"
  define xs2 where "xs2 = x_reparent_window w ?r 0 0 xs1"
  define xs3 where "xs3 = x_remove_from_save_set w xs2"
  define xs4 where "xs4 = x_destroy_window f xs3"
  have xwf: "xs_wf xs" and inj: "inj_on m (dom m)" and disj: "dom m \<inter> ran m = {}"
    using rinv by (simp_all add: reg_tree_inv_def)
  have so: "xs_owned xs = ran m"
    and s2: "\<And>c g. m c = Some g \<Longrightarrow> x_exists xs c \<Longrightarrow> c \<in> xs_save_set xs \<and> x_parent_of xs c = Some g"
    and s3: "\<And>v g. x_parent_of xs v = Some g \<Longrightarrow> g \<in> ran m \<Longrightarrow> m v = Some g"
    using sinv unfolding save_set_inv_def by blast+
  have fw: "f \<noteq> ?r" "x_parent_of xs f = Some ?r" using reg_tree_inv_frames_fresh(4,5) [OF rinv reg] .
  have wf: "w \<noteq> f" using disj reg by (auto simp: ran_def)
  have rr: "?r \<notin> ran m" using rinv by (auto simp: reg_tree_inv_def ran_def)
  have wran: "w \<notin> ran m" using disj reg by auto
  note srv = owen_unframe_server [OF xwf fw(2,1) wf]
  have pv: "x_parent_of xs4 v =
      (if v = f then None else if v = w \<and> x_exists xs w then Some ?r
       else if x_parent_of xs v = Some f then None else x_parent_of xs v)" for v
    using srv(1) [of v] unfolding xs4_def xs3_def xs2_def xs1_def .
  have t1: "x_same_tree xs xs1" unfolding xs1_def by (rule x_same_tree_ops)
  have rex: "x_exists xs1 ?r"
    using xs_wf_root_exists [OF xwf] x_same_tree_exists [OF t1] by simp
  have p2: "x_parent_of xs2 = (if x_exists xs w then (x_parent_of xs)(w \<mapsto> ?r) else x_parent_of xs)"
    "xs_root xs2 = ?r"
    using x_reparent_window_tree(1,2) [OF rex, of w 0 0] t1 x_same_tree_exists [OF t1, of w]
    unfolding xs2_def by (simp_all add: x_same_tree_def)
  have t3: "x_same_tree xs2 xs3" unfolding xs3_def by (rule x_same_tree_ops)
  have p3: "x_parent_of xs3 v = (if v = w \<and> x_exists xs w then Some ?r else x_parent_of xs v)" for v
    using p2(1) x_same_tree_parent [OF t3] by simp
  have fex3: "x_exists xs3 f" and fr3: "f \<noteq> xs_root xs3"
    using p3 [of f] fw wf p2(2) t3 unfolding x_exists_parent_of by (simp_all add: x_same_tree_def)
  have ow3: "xs_owned xs3 = ran m"
    using so x_env_keep(4) x_env_requests(6,8) unfolding xs3_def xs2_def xs1_def by simp
  have ex2w: "x_exists xs2 w = x_exists xs w"
  proof (cases "x_exists xs w")
    case True then show ?thesis using p2(1) unfolding x_exists_parent_of by simp
  next
    case False then show ?thesis using p2(1) by (simp add: x_exists_parent_of)
  qed
  have ss3: "xs_save_set xs3 = (if x_exists xs w then xs_save_set xs - {w} else xs_save_set xs)"
    using x_env_keep(4) x_env_requests(5,7) ex2w unfolding xs3_def xs2_def xs1_def by simp
  have ow4: "xs_owned xs4 = {v \<in> ran m. \<not> x_doomed xs3 f v}"
    and ss4: "xs_save_set xs4 = {v \<in> xs_save_set xs3. \<not> x_doomed xs3 f v}"
    using x_env_requests(9,10) [OF fex3 fr3] ow3 unfolding xs4_def by simp_all
  have nd: "\<not> x_doomed xs3 f v" if "v \<noteq> f" "v \<noteq> w" "x_parent_of xs v \<noteq> Some f" for v
    using that p3 [of v] unfolding x_doomed_parent by simp
  have own: "xs_owned xs4 = ran ?m'"
  proof -
    have "v \<in> ran m \<Longrightarrow> v \<noteq> f \<Longrightarrow> \<not> x_doomed xs3 f v" for v
    proof -
      assume v: "v \<in> ran m" "v \<noteq> f"
      then obtain c where "m c = Some v" by (auto simp: ran_def)
      then have "x_parent_of xs v = Some ?r" using reg_tree_inv_frames_fresh(5) [OF rinv] by blast
      then show ?thesis using nd [of v] v wran fw(1) by auto
    qed
    then have "xs_owned xs4 = ran m - {f}" using ow4 unfolding x_doomed_parent by auto
    then show ?thesis using ran_remove_inj [OF inj reg] by simp
  qed
  have c2: "c \<in> xs_save_set xs4 \<and> x_parent_of xs4 c = Some g"
    if "?m' c = Some g" "x_exists xs4 c" for c g
  proof -
    have cw: "c \<noteq> w" and mc: "m c = Some g" using that(1) by (auto split: if_splits)
    have cf: "c \<noteq> f" using disj mc reg by (auto simp: ran_def)
    have gf: "g \<noteq> f" using inj_onD [OF inj, of c w] mc reg cw by auto
    have "x_parent_of xs4 c \<noteq> None" using that(2) unfolding x_exists_parent_of .
    then have nf: "x_parent_of xs c \<noteq> Some f" and e4: "x_parent_of xs4 c = x_parent_of xs c"
      using pv [of c] cw cf by (auto split: if_splits)
    have "x_exists xs c" using that(2) unfolding x_exists_parent_of e4 .
    then have sc: "c \<in> xs_save_set xs \<and> x_parent_of xs c = Some g" by (rule s2 [OF mc])
    then show ?thesis using ss4 ss3 nd [OF cf cw nf] cw e4 by auto
  qed
  have c3: "?m' v = Some g" if "x_parent_of xs4 v = Some g" "g \<in> ran ?m'" for v g
  proof -
    have g: "g \<in> ran m" "g \<noteq> f" using that(2) ran_remove_inj [OF inj reg] by auto
    have "\<not> (v = w \<and> x_exists xs w)" using that(1) pv [of v] g rr by (auto split: if_splits)
    then have pg: "x_parent_of xs v = Some g" using that(1) pv [of v] by (auto split: if_splits)
    then have "m v = Some g" using s3 g(1) by blast
    then show ?thesis using reg g(2) by auto
  qed
  have "save_set_inv ?m' xs4" unfolding save_set_inv_def using own c2 c3 by blast
  then show ?thesis by (simp only: xs4_def xs3_def xs2_def xs1_def)
qed

subsection \<open>Close-down of the connection\<close>

lemma x_close_display_windows:
  "xs_windows (x_close_display xs) v =
     (case xs_windows xs v of
        None \<Rightarrow> None
      | Some u \<Rightarrow> if v \<in> xs_owned xs \<or> xw_parent (x_save_set_restore xs v u) \<in> xs_owned xs then None
                  else Some (x_save_set_restore xs v u))"
  by (simp add: x_close_display_def x_log_def Let_def split: option.splits)

lemma x_close_display_registry:
  assumes rinv: "reg_tree_inv m xs" and sinv: "save_set_inv m xs"
  shows "m c = Some f \<Longrightarrow> x_exists xs c \<Longrightarrow>
           \<exists>u0 p u. xs_windows xs c = Some u0 \<and> xs_windows xs f = Some p \<and>
             xs_windows (x_close_display xs) c = Some u \<and> xw_parent u = xs_root xs \<and> xw_mapped u \<and>
             xw_x u = xw_x p + xw_border_width p + xw_x u0 \<and> xw_y u = xw_y p + xw_border_width p + xw_y u0"
    and "f \<in> ran m \<Longrightarrow> \<not> x_exists (x_close_display xs) f"
    and "x_exists xs v \<Longrightarrow> v \<notin> ran m \<Longrightarrow> x_exists (x_close_display xs) v"
proof -
  let ?r = "xs_root xs"
  have disj: "dom m \<inter> ran m = {}" using rinv by (simp add: reg_tree_inv_def)
  have rr: "?r \<notin> ran m" using rinv by (auto simp: reg_tree_inv_def ran_def)
  have so: "xs_owned xs = ran m"
    and s2: "\<And>c g. m c = Some g \<Longrightarrow> x_exists xs c \<Longrightarrow> c \<in> xs_save_set xs \<and> x_parent_of xs c = Some g"
    and s3: "\<And>v g. x_parent_of xs v = Some g \<Longrightarrow> g \<in> ran m \<Longrightarrow> m v = Some g"
    using sinv unfolding save_set_inv_def by blast+
  have restore: "x_save_set_restore xs c u = u\<lparr>xw_parent := ?r, xw_x := xw_x p + xw_border_width p + xw_x u,
                 xw_y := xw_y p + xw_border_width p + xw_y u, xw_mapped := True\<rparr>"
    if "m c = Some g" "xs_windows xs c = Some u" "xw_parent u = g" "c \<in> xs_save_set xs"
       "xs_windows xs g = Some p" for c g u p
  proof -
    have "x_parent_of xs g = Some ?r" using reg_tree_inv_frames_fresh(5) [OF rinv that(1)] .
    then have "xw_parent p = ?r" using that(5) by (simp add: x_parent_of_def)
    moreover have "g \<in> xs_owned xs" using so that(1) by (auto simp: ran_def)
    ultimately show ?thesis using that by (simp add: x_save_set_restore_def)
  qed
  have frame_win: "\<exists>p. xs_windows xs g = Some p" if "m c = Some g" for c g
    using reg_tree_inv_frames_fresh(5) [OF rinv that] by (auto simp: x_parent_of_def)
  show "\<exists>u0 p u. xs_windows xs c = Some u0 \<and> xs_windows xs f = Some p \<and>
          xs_windows (x_close_display xs) c = Some u \<and> xw_parent u = ?r \<and> xw_mapped u \<and>
          xw_x u = xw_x p + xw_border_width p + xw_x u0 \<and> xw_y u = xw_y p + xw_border_width p + xw_y u0"
    if h: "m c = Some f" "x_exists xs c"
  proof -
    obtain u where u: "xs_windows xs c = Some u" using h(2) by (auto simp: x_exists_def)
    have sc: "c \<in> xs_save_set xs" "x_parent_of xs c = Some f" using s2 [OF h] by simp_all
    then have pu: "xw_parent u = f" using u by (simp add: x_parent_of_def)
    obtain p where p: "xs_windows xs f = Some p" using frame_win [OF h(1)] by blast
    have co: "c \<notin> xs_owned xs" using so disj h(1) by auto
    show ?thesis using restore [OF h(1) u pu sc(1) p] u p co rr so
      by (simp add: x_close_display_windows)
  qed
  show "\<not> x_exists (x_close_display xs) f" if h: "f \<in> ran m"
    using h so by (simp add: x_exists_def x_close_display_windows split: option.splits)
  show "x_exists (x_close_display xs) v" if h: "x_exists xs v" "v \<notin> ran m"
  proof -
    obtain u where u: "xs_windows xs v = Some u" using h(1) by (auto simp: x_exists_def)
    have vo: "v \<notin> xs_owned xs" using so h(2) by simp
    have "xw_parent (x_save_set_restore xs v u) \<notin> xs_owned xs"
    proof (cases "xw_parent u \<in> ran m")
      case True
      then have mv: "m v = Some (xw_parent u)" using s3 u by (simp add: x_parent_of_def)
      have sv: "v \<in> xs_save_set xs" using s2 [OF mv h(1)] by simp
      obtain p where p: "xs_windows xs (xw_parent u) = Some p" using frame_win [OF mv] by blast
      show ?thesis using restore [OF mv u refl sv p] rr so by simp
    next
      case False
      then show ?thesis using so by (simp add: x_save_set_restore_def split: option.splits)
    qed
    then show ?thesis using u vo by (simp add: x_exists_def x_close_display_windows)
  qed
qed

text \<open>The close-down of a connection whose windows satisfy both invariants, in the form
  the crash-safety properties of the two implementations state it: every existing client
  comes back to the root, mapped, where it was on the screen; every frame is gone; every
  other window survives.\<close>

lemma x_close_display_safe:
  assumes "reg_tree_inv m xs" "save_set_inv m xs"
  shows "(\<forall>c f. m c = Some f \<longrightarrow> x_exists xs c \<longrightarrow>
            (\<exists>u0 p u. xs_windows xs c = Some u0 \<and> xs_windows xs f = Some p \<and>
               xs_windows (x_close_display xs) c = Some u \<and> xw_parent u = xs_root xs \<and> xw_mapped u \<and>
               xw_x u = xw_x p + xw_border_width p + xw_x u0 \<and>
               xw_y u = xw_y p + xw_border_width p + xw_y u0)) \<and>
         (\<forall>f \<in> ran m. \<not> x_exists (x_close_display xs) f) \<and>
         (\<forall>v. x_exists xs v \<and> v \<notin> ran m \<longrightarrow> x_exists (x_close_display xs) v)"
  using x_close_display_registry [OF assms] by blast

end
