(* ===== verification/Owen_Cpp_Inv.thy ===== *)
theory Owen_Cpp_Inv
  imports Owen_Cpp Save_Set
begin

text \<open>
  The invariant of the C++ window manager (\<open>src/owen.cpp\<close>): the \<open>clients_\<close> map is a
  registry in the sense of \<open>Registry_Tree\<close> over the server it runs on. It holds after
  \<open>Create\<close> and the startup of \<open>Run\<close>, and every handler of the event loop keeps it,
  provided the events are ones the server delivers to this client: a \<open>MapRequest\<close>
  for a fresh window, and button presses and motion only for managed clients (the
  passive grab of \<open>Frame\<close>). Outside that assumption \<open>clients_[w]\<close> inserts the frame
  \<open>0\<close> and the invariant is lost (\<open>cpp_button_press_unmanaged\<close>,
  \<open>cpp_motion_phantom_client\<close>); a repeated \<open>MapRequest\<close> leaves a stray frame
  (\<open>owen_cpp_map_request_twice\<close>). The reachable states also keep \<open>save_set_inv\<close>
  (\<open>cpp_reachable_save_set\<close>).
\<close>

definition cpp_inv :: "CppWM \<Rightarrow> XServer \<Rightarrow> bool" where
  "cpp_inv cw xs \<longleftrightarrow> cpp_root cw = xs_root xs \<and> reg_tree_inv (cpp_clients cw) xs"

definition cpp_event_ok :: "CppWM \<Rightarrow> XServer \<Rightarrow> XEvent \<Rightarrow> bool" where
  "cpp_event_ok cw xs e =
     (case e of
        MapRequest w \<Rightarrow> reg_fresh (cpp_clients cw) xs w
      | ButtonPress b \<Rightarrow> be_window b \<in> dom (cpp_clients cw)
      | MotionNotify m \<Rightarrow> me_window m \<in> dom (cpp_clients cw)
      | _ \<Rightarrow> True)"

inductive cpp_reachable :: "CppWM \<Rightarrow> XServer \<Rightarrow> bool" where
  start: "xs_wf xs0 \<Longrightarrow> distinct (xs_stack xs0) \<Longrightarrow> xs_owned xs0 = {} \<Longrightarrow>
          cpp_main (Some xs0) [] = Inr (cw, xs) \<Longrightarrow>
          cpp_reachable cw xs"
| step: "cpp_reachable cw xs \<Longrightarrow> cpp_event_ok cw xs e \<Longrightarrow>
         cpp_handle_event e cw xs = Inr (cw', xs') \<Longrightarrow> cpp_reachable cw' xs'"

subsection \<open>\<open>operator[]\<close> on the registry\<close>

lemma cpp_index_present [simp]:
  "cpp_clients cw w = Some f \<Longrightarrow> cpp_index w cw = (f, cw)"
  by (simp add: cpp_index_def)

lemma cpp_index_absent [simp]:
  "cpp_clients cw w = None \<Longrightarrow> cpp_index w cw = (0, cw\<lparr>cpp_clients := (cpp_clients cw)(w \<mapsto> 0)\<rparr>)"
  by (simp add: cpp_index_def)

lemma cpp_inv_same_tree:
  "cpp_inv cw xs \<Longrightarrow> x_same_tree xs xs' \<Longrightarrow> cpp_clients cw' = cpp_clients cw \<Longrightarrow>
   cpp_root cw' = cpp_root cw \<Longrightarrow> cpp_inv cw' xs'"
  using reg_tree_inv_same_tree by (simp add: cpp_inv_def) (auto simp: x_same_tree_def)

subsection \<open>Framing\<close>

text \<open>\<open>Frame\<close> either skips the window (the tree is kept) or registers the next id as its
  frame, a new child of the root, and reparents the window into it.\<close>

lemma cpp_frame_effect:
  assumes ex: "x_exists xs (cpp_root cw)" and w: "w \<noteq> xs_next_id xs"
    and run: "cpp_frame w b cw xs = Inr (cw', xs')"
  shows "(b \<and> cw' = cw \<and> x_same_tree xs xs') \<or>
         (cw' = cw\<lparr>cpp_clients := (cpp_clients cw)(w \<mapsto> xs_next_id xs)\<rparr> \<and>
          x_parent_of xs' = (if x_exists xs w
             then ((x_parent_of xs)(xs_next_id xs \<mapsto> cpp_root cw))(w \<mapsto> xs_next_id xs)
             else (x_parent_of xs)(xs_next_id xs \<mapsto> cpp_root cw)) \<and>
          xs_root xs' = xs_root xs \<and> xs_next_id xs' = Suc (xs_next_id xs))"
proof -
  obtain at xs1 where ga: "x_get_window_attributes w xs = (at, xs1)"
    by (cases "x_get_window_attributes w xs")
  have s1: "x_same_tree xs xs1"
    using x_same_tree_ops(12) [of xs w] ga by simp
  obtain a where a: "at = Some a"
    using run ga by (cases at) (simp_all add: cpp_frame_def)
  show ?thesis
  proof (cases "b \<and> (wa_override_redirect a \<or> wa_map_state a \<noteq> IsViewable)")
    case True
    then show ?thesis using run ga a s1 by (simp add: cpp_frame_def)
  next
    case False
    let ?m = "SubstructureRedirectMask OR SubstructureNotifyMask OR ButtonPressMask"
    obtain fr xs2 where cr: "x_create_simple_window (cpp_root cw) 50 50 (wa_width a) (wa_height a)
                 BORDER_WIDTH BORDER_COLOR BG_COLOR xs1 = (fr, xs2)"
      by (metis surj_pair)
    have fr: "fr = xs_next_id xs1"
      using x_create_simple_window_id cr by (metis fst_conv)
    let ?X = "x_grab_button w (x_select_input fr ?m xs2)"
    have mid: "x_same_tree (snd (x_create_simple_window (cpp_root cw) 50 50 (wa_width a) (wa_height a)
                 BORDER_WIDTH BORDER_COLOR BG_COLOR xs1)) ?X"
      using cr x_same_tree_ops(1) [of xs2 fr ?m] x_same_tree_ops(2) [of _ w] x_same_tree_trans
      by (metis snd_conv)
    have n1: "xs_next_id xs1 = xs_next_id xs" "xs_root xs1 = xs_root xs"
        "x_parent_of xs1 = x_parent_of xs"
      using s1 by (simp_all add: x_same_tree_def)
    have ex1: "x_exists xs1 (cpp_root cw)"
      using ex s1 by (simp add: x_same_tree_exists)
    note tr = frame_sequence_tree [OF ex1 fr _ mid]
    have eq: "cw' = cw\<lparr>cpp_clients := (cpp_clients cw)(w \<mapsto> fr)\<rparr>"
       "xs' = x_map_window fr (x_reparent_window w fr 0 0 (x_add_to_save_set w ?X))"
      using run ga a False cr by (simp_all add: cpp_frame_def Let_def)
    show ?thesis
      using tr [of w] w eq fr n1 x_same_tree_exists [OF s1] by simp
  qed
qed

lemma cpp_frame_step:
  assumes inv: "cpp_inv cw xs" and ok: "reg_fresh (cpp_clients cw) xs w"
    and run: "cpp_frame w b cw xs = Inr (cw', xs')"
  shows "cpp_inv cw' xs' \<and> xs_root xs' = xs_root xs \<and> xs_next_id xs \<le> xs_next_id xs' \<and>
         (cpp_clients cw' = cpp_clients cw \<or>
          cpp_clients cw' = (cpp_clients cw)(w \<mapsto> xs_next_id xs))"
proof -
  have rt: "cpp_root cw = xs_root xs" and rinv: "reg_tree_inv (cpp_clients cw) xs"
    using inv by (simp_all add: cpp_inv_def)
  have ex: "x_exists xs (cpp_root cw)"
    using rt rinv xs_wf_root_exists by (simp add: reg_tree_inv_def)
  have w: "w \<noteq> xs_next_id xs"
    using ok by (simp add: reg_fresh_def)
  from cpp_frame_effect [OF ex w run] show ?thesis
  proof
    assume "b \<and> cw' = cw \<and> x_same_tree xs xs'"
    then show ?thesis
      using cpp_inv_same_tree [OF inv] by (simp add: x_same_tree_def)
  next
    assume e: "cw' = cw\<lparr>cpp_clients := (cpp_clients cw)(w \<mapsto> xs_next_id xs)\<rparr> \<and>
          x_parent_of xs' = (if x_exists xs w
             then ((x_parent_of xs)(xs_next_id xs \<mapsto> cpp_root cw))(w \<mapsto> xs_next_id xs)
             else (x_parent_of xs)(xs_next_id xs \<mapsto> cpp_root cw)) \<and>
          xs_root xs' = xs_root xs \<and> xs_next_id xs' = Suc (xs_next_id xs)"
    then have "reg_tree_inv (cpp_clients cw') xs'"
      using reg_tree_inv_frame [OF rinv ok] rt by simp
    then show ?thesis
      using e rt by (simp add: cpp_inv_def)
  qed
qed

lemma cpp_frame_all_inv:
  assumes "cpp_inv cw xs" "distinct tops"
    and "\<forall>w \<in> set tops. reg_fresh (cpp_clients cw) xs w"
    and "cpp_frame_all tops cw xs = Inr (cw', xs')"
  shows "cpp_inv cw' xs'"
  using assms
proof (induction tops arbitrary: cw xs)
  case Nil
  then show ?case by simp
next
  case (Cons w tops)
  obtain cw1 xs1 where fr: "cpp_frame w True cw xs = Inr (cw1, xs1)"
    and rest: "cpp_frame_all tops cw1 xs1 = Inr (cw', xs')"
    using Cons.prems(4) by (auto split: sum.splits)
  have okw: "reg_fresh (cpp_clients cw) xs w" using Cons.prems(3) by simp
  note st = cpp_frame_step [OF Cons.prems(1) okw fr]
  have "\<forall>v \<in> set tops. reg_fresh (cpp_clients cw1) xs1 v"
  proof
    fix v assume "v \<in> set tops"
    then have okv: "reg_fresh (cpp_clients cw) xs v" and vw: "v \<noteq> w"
      using Cons.prems(2,3) by auto
    have "cpp_clients cw w = None" using okw by (simp add: reg_fresh_def)
    then show "reg_fresh (cpp_clients cw1) xs1 v"
      using okv vw st reg_fresh_mono reg_fresh_upd by metis
  qed
  then show ?case
    using Cons.IH [OF _ _ _ rest] st Cons.prems(2) by simp
qed

subsection \<open>Startup\<close>

lemma fold_cpp_on_wm_detected_Inr:
  "fold (\<lambda>e s. cpp_on_wm_detected s e) es (Inr cw) = Inr cw' \<Longrightarrow>
   cpp_clients cw' = cpp_clients cw \<and> cpp_root cw' = cpp_root cw"
proof (induction es arbitrary: cw)
  case (Cons e es)
  show ?case
  proof (cases "error_code e = BadAccess")
    case True
    then show ?thesis using Cons.IH [of "cw\<lparr>cpp_wm_detected := True\<rparr>"] Cons.prems
      by (simp add: cpp_on_wm_detected_def)
  next
    case False
    have "fold (\<lambda>e s. cpp_on_wm_detected s e) es' (Inl err) = Inl err" for es' err
      by (induction es') (simp_all add: cpp_on_wm_detected_def)
    then show ?thesis using False Cons.prems by (simp add: cpp_on_wm_detected_def)
  qed
qed simp

text \<open>\<open>Run\<close> up to the event loop: the handshake and the grab keep the connection's
  resources; then the windows \<open>XQueryTree\<close> returned, all fresh, are framed.\<close>

lemma cpp_run_init_scan:
  assumes wf: "xs_wf xs" and dist: "distinct (xs_stack xs)"
    and rt: "cpp_root cw = xs_root xs" and empty: "cpp_clients cw = Map.empty"
    and run: "cpp_run_init cw xs = Inr (cw', xs')"
  obtains cw1 tops xs4 xs5 where "cpp_clients cw1 = Map.empty" "cpp_root cw1 = xs_root xs"
    "x_same_env xs xs4" "distinct tops" "\<forall>w \<in> set tops. reg_fresh Map.empty xs4 w"
    "cpp_frame_all tops cw1 xs4 = Inr (cw', xs5)" "xs' = x_ungrab_server xs5"
proof -
  let ?cw0 = "cw\<lparr>cpp_wm_detected := False\<rparr>"
  let ?xs1 = "x_select_input (cpp_root ?cw0)
                (SubstructureRedirectMask OR SubstructureNotifyMask OR ButtonPressMask) xs"
  obtain r xs2 where sync: "x_sync cpp_on_wm_detected (Inr ?cw0) ?xs1 = (r, xs2)"
    by (cases "x_sync cpp_on_wm_detected (Inr ?cw0) ?xs1")
  have s2: "x_same_env xs xs2"
    using x_same_env_ops(1) [of xs] x_same_env_ops(13) [of ?xs1 cpp_on_wm_detected "Inr ?cw0"] sync
    by (auto intro: x_same_env_trans)
  have stack2: "xs_stack xs2 = xs_stack xs"
    using sync by (auto simp: x_sync_def x_unfold Let_def split: option.splits)
  obtain cw1 where r: "r = Inr cw1" and nd: "\<not> cpp_wm_detected cw1"
    using run sync by (cases r) (auto simp: cpp_run_init_def split: if_splits)
  have "fold (\<lambda>e s. cpp_on_wm_detected s e) (xs_pending_errors ?xs1) (Inr ?cw0) = Inr cw1"
    using sync r by (simp add: x_sync_def)
  then have cw1: "cpp_clients cw1 = Map.empty" "cpp_root cw1 = xs_root xs"
    using fold_cpp_on_wm_detected_Inr rt empty by fastforce+
  let ?xs3 = "x_grab_server xs2"
  have s3: "x_same_env xs ?xs3"
    using s2 x_same_env_ops(8) x_same_env_trans by blast
  have wf3: "xs_wf ?xs3" and dist3: "distinct (xs_stack ?xs3)" and rt3: "xs_root ?xs3 = xs_root xs"
    using x_same_tree_wf [OF x_same_env_tree [OF s3]] wf dist stack2 s3
    by (simp_all add: x_grab_server_def x_log_def x_same_env_def x_same_tree_def)
  obtain tops xs4 where qt: "x_query_tree (xs_root ?xs3) ?xs3 = (Some tops, xs4)" and "distinct tops"
      and fresh: "\<forall>w \<in> set tops. reg_fresh Map.empty xs4 w" and "x_same_tree ?xs3 xs4"
    by (rule x_query_tree_root_fresh [OF wf3 dist3])
  have s4: "x_same_env xs xs4"
    using s3 x_same_env_ops(12) [of ?xs3 "xs_root ?xs3"] qt x_same_env_trans by (metis snd_conv)
  obtain xs5 where fa: "cpp_frame_all tops cw1 xs4 = Inr (cw', xs5)" and xs': "xs' = x_ungrab_server xs5"
    using run sync r nd qt cw1 rt3 by (auto simp: cpp_run_init_def Let_def split: sum.splits)
  show ?thesis using that cw1 s4 \<open>distinct tops\<close> fresh fa xs' by blast
qed

lemma cpp_run_init_inv:
  assumes wf: "xs_wf xs" and dist: "distinct (xs_stack xs)"
    and rt: "cpp_root cw = xs_root xs" and empty: "cpp_clients cw = Map.empty"
    and run: "cpp_run_init cw xs = Inr (cw', xs')"
  shows "cpp_inv cw' xs'"
proof -
  obtain cw1 tops xs4 xs5 where cw1: "cpp_clients cw1 = Map.empty" "cpp_root cw1 = xs_root xs"
      and s4: "x_same_env xs xs4" and dt: "distinct tops" and fresh: "\<forall>w \<in> set tops. reg_fresh Map.empty xs4 w"
      and fa: "cpp_frame_all tops cw1 xs4 = Inr (cw', xs5)" and xs': "xs' = x_ungrab_server xs5"
    by (rule cpp_run_init_scan [OF assms])
  have t4: "x_same_tree xs xs4" by (rule x_same_env_tree [OF s4])
  have "reg_tree_inv Map.empty xs4"
    using x_same_tree_wf [OF t4] wf by (simp add: reg_tree_inv_def)
  then have "cpp_inv cw1 xs4"
    using cw1 t4 by (simp add: cpp_inv_def x_same_tree_def)
  then have "cpp_inv cw' xs5"
    using cpp_frame_all_inv [OF _ dt _ fa] fresh cw1 by simp
  then show ?thesis
    using cpp_inv_same_tree x_same_tree_ops(11) xs' by blast
qed

lemma cpp_startup_inv:
  assumes "xs_wf xs0" "distinct (xs_stack xs0)" "cpp_main (Some xs0) [] = Inr (cw, xs)"
  shows "cpp_inv cw xs"
proof -
  obtain cw0 where c: "cpp_create (Some xs0) = Inr cw0"
    "cpp_root cw0 = xs_root xs0" "cpp_clients cw0 = Map.empty"
    by (simp add: cpp_create_def)
  have "cpp_run_init cw0 xs0 = Inr (cw, xs)"
    using assms(3) c(1) by (auto simp: cpp_main_def cpp_run.simps [of "[]"] split: sum.splits)
  then show ?thesis
    using cpp_run_init_inv [OF assms(1,2) c(2,3)] by blast
qed

subsection \<open>Handlers\<close>

lemma cpp_on_configure_request_env:
  "fst (cpp_on_configure_request e cw xs) = cw \<and> x_same_env xs (snd (cpp_on_configure_request e cw xs))"
  by (cases "cpp_clients cw (cr_window e)")
     (auto simp: cpp_on_configure_request_def Let_def intro: x_same_env_trans x_same_env_ops(5))

lemma cpp_on_button_press_env:
  assumes "cpp_clients cw (be_window e) = Some f" "cpp_on_button_press e cw xs = Inr (cw', xs')"
  shows "cpp_clients cw' = cpp_clients cw \<and> cpp_root cw' = cpp_root cw \<and> x_same_env xs xs'"
proof -
  obtain g xs1 where g: "x_get_geometry f xs = (g, xs1)" by (cases "x_get_geometry f xs")
  have "x_same_env xs xs1" using x_same_env_ops(11) [of xs f] g by simp
  then show ?thesis
    using assms g x_same_env_ops(7) [of xs1 f] x_same_env_trans
    by (auto simp: cpp_on_button_press_def Let_def split: option.splits)
qed

lemma cpp_on_motion_notify_env:
  assumes "cpp_clients cw (me_window e) = Some f" "cpp_on_motion_notify e cw xs = Inr (cw', xs')"
  shows "cw' = cw \<and> x_same_env xs xs'"
  using assms x_same_env_ops(6) [of xs f]
  by (auto simp: cpp_on_motion_notify_def split: option.splits sum.splits if_splits)

lemma cpp_inv_unmap:
  assumes inv: "cpp_inv cw xs"
  shows "cpp_inv (fst (cpp_on_unmap_notify e cw xs)) (snd (cpp_on_unmap_notify e cw xs))"
proof (cases "cpp_clients cw (ue_window e) = None \<or> ue_event e = cpp_root cw")
  case True
  then show ?thesis using inv by (auto simp: cpp_on_unmap_notify_def)
next
  case False
  then obtain f where reg: "cpp_clients cw (ue_window e) = Some f" and ev: "ue_event e \<noteq> cpp_root cw"
    by auto
  have rt: "cpp_root cw = xs_root xs" and rinv: "reg_tree_inv (cpp_clients cw) xs"
    using inv by (simp_all add: cpp_inv_def)
  show ?thesis
    using reg_tree_inv_unframe [OF rinv reg] reg ev rt
    by (simp add: cpp_on_unmap_notify_def cpp_unframe_def cpp_inv_def)
qed

lemma cpp_inv_step:
  assumes inv: "cpp_inv cw xs" and ok: "cpp_event_ok cw xs e"
    and run: "cpp_handle_event e cw xs = Inr (cw', xs')"
  shows "cpp_inv cw' xs'"
proof (cases e)
  case (MapRequest w)
  then obtain cw1 xs1 where fr: "cpp_frame w False cw xs = Inr (cw1, xs1)" and xs': "xs' = x_map_window w xs1"
    and cw': "cw' = cw1"
    using run by (auto simp: cpp_on_map_request_def split: sum.splits)
  have "cpp_inv cw1 xs1"
    using cpp_frame_step [OF inv _ fr] ok MapRequest by (simp add: cpp_event_ok_def)
  then show ?thesis
    using cpp_inv_same_tree x_same_tree_ops(5) xs' cw' by blast
next
  case (ConfigureRequest c)
  then show ?thesis
    using cpp_on_configure_request_env [of c cw xs] run cpp_inv_same_tree [OF inv] x_same_env_tree by auto
next
  case (UnmapNotify u)
  then show ?thesis
    using cpp_inv_unmap [OF inv, of u] run by simp
next
  case (ButtonPress b)
  then obtain f where "cpp_clients cw (be_window b) = Some f"
    using ok by (auto simp: cpp_event_ok_def)
  then show ?thesis
    using cpp_on_button_press_env [of cw b f xs cw' xs'] run ButtonPress cpp_inv_same_tree [OF inv] x_same_env_tree
    by auto
next
  case (MotionNotify m)
  then obtain f where "cpp_clients cw (me_window m) = Some f"
    using ok by (auto simp: cpp_event_ok_def)
  then show ?thesis
    using cpp_on_motion_notify_env [of cw m f xs cw' xs'] run MotionNotify cpp_inv_same_tree [OF inv] x_same_env_tree
    by auto
qed (use inv run in simp_all)

lemma cpp_reachable_inv: "cpp_reachable cw xs \<Longrightarrow> cpp_inv cw xs"
proof (induction rule: cpp_reachable.induct)
  case (start xs0 cw xs)
  then show ?case using cpp_startup_inv by blast
next
  case (step cw xs e cw' xs')
  then show ?case by (blast intro: cpp_inv_step)
qed

subsection \<open>The save set\<close>

text \<open>The C++ window manager keeps \<open>save_set_inv\<close> as well: \<open>Frame\<close> puts the client in
  the save set before reparenting it into a frame the connection owns, \<open>Unframe\<close> takes it
  out before destroying the frame, and the other handlers leave the connection's
  resources alone.\<close>

lemma cpp_frame_save_set:
  assumes inv: "cpp_inv cw xs" and sinv: "save_set_inv (cpp_clients cw) xs"
    and ok: "reg_fresh (cpp_clients cw) xs w" and run: "cpp_frame w b cw xs = Inr (cw', xs')"
  shows "save_set_inv (cpp_clients cw') xs'"
proof -
  obtain at xs1 where ga: "x_get_window_attributes w xs = (at, xs1)"
    by (cases "x_get_window_attributes w xs")
  have e1: "x_same_env xs xs1"
    using x_same_env_ops(10) [of xs w] ga by simp
  have t1: "x_same_tree xs xs1" by (rule x_same_env_tree [OF e1])
  note sinv1 = save_set_inv_same_env [OF sinv e1]
  obtain a where a: "at = Some a"
    using run ga by (cases at) (simp_all add: cpp_frame_def)
  show ?thesis
  proof (cases "b \<and> (wa_override_redirect a \<or> wa_map_state a \<noteq> IsViewable)")
    case True
    then show ?thesis using run ga a sinv1 by (simp add: cpp_frame_def)
  next
    case False
    let ?m = "SubstructureRedirectMask OR SubstructureNotifyMask OR ButtonPressMask"
    have rt: "cpp_root cw = xs_root xs1"
      using inv t1 by (simp add: cpp_inv_def x_same_tree_def)
    have rinv1: "reg_tree_inv (cpp_clients cw) xs1"
      using inv reg_tree_inv_same_tree [OF _ t1] by (simp add: cpp_inv_def)
    have ok1: "reg_fresh (cpp_clients cw) xs1 w"
      using ok t1 by (simp add: reg_fresh_def x_same_tree_def)
    obtain fr xs2 where cr: "x_create_simple_window (cpp_root cw) 50 50 (wa_width a) (wa_height a)
                 BORDER_WIDTH BORDER_COLOR BG_COLOR xs1 = (fr, xs2)"
      by (metis surj_pair)
    have fr: "fr = xs_next_id xs1"
      using x_create_simple_window_id cr by (metis fst_conv)
    let ?X = "x_grab_button w (x_select_input fr ?m xs2)"
    have mid: "x_same_env (snd (x_create_simple_window (xs_root xs1) 50 50 (wa_width a) (wa_height a)
                 BORDER_WIDTH BORDER_COLOR BG_COLOR xs1)) ?X"
      using cr rt x_same_env_ops(1) [of xs2 fr ?m] x_same_env_ops(2) [of _ w] x_same_env_trans
      by (metis snd_conv)
    have eq: "cpp_clients cw' = (cpp_clients cw)(w \<mapsto> fr)"
       "xs' = x_map_window fr (x_reparent_window w fr 0 0 (x_add_to_save_set w ?X))"
      using run ga a False cr by (auto simp: cpp_frame_def Let_def)
    show ?thesis
      unfolding eq fr by (rule save_set_inv_frame [OF rinv1 sinv1 ok1 mid [unfolded fr]])
  qed
qed

lemma cpp_frame_all_save_set:
  assumes "cpp_inv cw xs" "save_set_inv (cpp_clients cw) xs" "distinct tops"
    and "\<forall>w \<in> set tops. reg_fresh (cpp_clients cw) xs w"
    and "cpp_frame_all tops cw xs = Inr (cw', xs')"
  shows "save_set_inv (cpp_clients cw') xs'"
  using assms
proof (induction tops arbitrary: cw xs)
  case Nil
  then show ?case by simp
next
  case (Cons w tops)
  obtain cw1 xs1 where fr: "cpp_frame w True cw xs = Inr (cw1, xs1)"
    and rest: "cpp_frame_all tops cw1 xs1 = Inr (cw', xs')"
    using Cons.prems(5) by (auto split: sum.splits)
  have okw: "reg_fresh (cpp_clients cw) xs w" using Cons.prems(4) by simp
  note st = cpp_frame_step [OF Cons.prems(1) okw fr]
  note sv = cpp_frame_save_set [OF Cons.prems(1,2) okw fr]
  have "\<forall>v \<in> set tops. reg_fresh (cpp_clients cw1) xs1 v"
  proof
    fix v assume "v \<in> set tops"
    then have okv: "reg_fresh (cpp_clients cw) xs v" and vw: "v \<noteq> w"
      using Cons.prems(3,4) by auto
    have "cpp_clients cw w = None" using okw by (simp add: reg_fresh_def)
    then show "reg_fresh (cpp_clients cw1) xs1 v"
      using okv vw st reg_fresh_mono reg_fresh_upd by metis
  qed
  then show ?case
    using Cons.IH [OF _ sv _ _ rest] st Cons.prems(3) by simp
qed

lemma cpp_startup_save_set:
  assumes wf: "xs_wf xs0" and dist: "distinct (xs_stack xs0)" and own: "xs_owned xs0 = {}"
    and run: "cpp_main (Some xs0) [] = Inr (cw, xs)"
  shows "save_set_inv (cpp_clients cw) xs"
proof -
  obtain cw0 where c: "cpp_create (Some xs0) = Inr cw0"
    "cpp_root cw0 = xs_root xs0" "cpp_clients cw0 = Map.empty"
    by (simp add: cpp_create_def)
  have ri: "cpp_run_init cw0 xs0 = Inr (cw, xs)"
    using run c(1) by (auto simp: cpp_main_def cpp_run.simps [of "[]"] split: sum.splits)
  obtain cw1 tops xs4 xs5 where cw1: "cpp_clients cw1 = Map.empty" "cpp_root cw1 = xs_root xs0"
      and s4: "x_same_env xs0 xs4" and dt: "distinct tops" and fresh: "\<forall>w \<in> set tops. reg_fresh Map.empty xs4 w"
      and fa: "cpp_frame_all tops cw1 xs4 = Inr (cw, xs5)" and xs: "xs = x_ungrab_server xs5"
    by (rule cpp_run_init_scan [OF wf dist c(2,3) ri])
  have t4: "x_same_tree xs0 xs4" by (rule x_same_env_tree [OF s4])
  have "reg_tree_inv Map.empty xs4"
    using x_same_tree_wf [OF t4] wf by (simp add: reg_tree_inv_def)
  then have inv1: "cpp_inv cw1 xs4"
    using cw1 t4 by (simp add: cpp_inv_def x_same_tree_def)
  have "xs_owned xs4 = {}" using s4 own by (simp add: x_same_env_def)
  then have "save_set_inv (cpp_clients cw1) xs4"
    using cw1 save_set_inv_empty by simp
  then have "save_set_inv (cpp_clients cw) xs5"
    using cpp_frame_all_save_set [OF inv1 _ dt _ fa] fresh cw1 by simp
  then show ?thesis
    using save_set_inv_same_env x_same_env_ops(9) xs by blast
qed

lemma cpp_save_set_step:
  assumes inv: "cpp_inv cw xs" and sinv: "save_set_inv (cpp_clients cw) xs"
    and ok: "cpp_event_ok cw xs e" and run: "cpp_handle_event e cw xs = Inr (cw', xs')"
  shows "save_set_inv (cpp_clients cw') xs'"
proof (cases e)
  case (MapRequest w)
  then obtain xs1 where fr: "cpp_frame w False cw xs = Inr (cw', xs1)" and xs': "xs' = x_map_window w xs1"
    using run by (auto simp: cpp_on_map_request_def split: sum.splits)
  have "save_set_inv (cpp_clients cw') xs1"
    using cpp_frame_save_set [OF inv sinv _ fr] ok MapRequest by (simp add: cpp_event_ok_def)
  then show ?thesis using save_set_inv_same_env x_same_env_ops(3) xs' by blast
next
  case (ConfigureRequest c)
  then show ?thesis
    using cpp_on_configure_request_env [of c cw xs] run save_set_inv_same_env [OF sinv] by auto
next
  case (UnmapNotify u)
  show ?thesis
  proof (cases "cpp_clients cw (ue_window u) = None \<or> ue_event u = cpp_root cw")
    case True
    then show ?thesis using run UnmapNotify sinv by (auto simp: cpp_on_unmap_notify_def split: if_splits)
  next
    case False
    then obtain f where reg: "cpp_clients cw (ue_window u) = Some f"
      and ev: "ue_event u \<noteq> cpp_root cw" by auto
    have rt: "cpp_root cw = xs_root xs" and rinv: "reg_tree_inv (cpp_clients cw) xs"
      using inv by (simp_all add: cpp_inv_def)
    show ?thesis
      using save_set_inv_unframe [OF rinv sinv reg] reg ev rt run UnmapNotify
      by (auto simp: cpp_on_unmap_notify_def cpp_unframe_def)
  qed
next
  case (ButtonPress b)
  then obtain f where "cpp_clients cw (be_window b) = Some f"
    using ok by (auto simp: cpp_event_ok_def)
  then show ?thesis
    using cpp_on_button_press_env [of cw b f xs cw' xs'] run ButtonPress save_set_inv_same_env [OF sinv]
    by auto
next
  case (MotionNotify m)
  then obtain f where "cpp_clients cw (me_window m) = Some f"
    using ok by (auto simp: cpp_event_ok_def)
  then show ?thesis
    using cpp_on_motion_notify_env [of cw m f xs cw' xs'] run MotionNotify save_set_inv_same_env [OF sinv]
    by auto
qed (use run sinv in simp_all)

lemma cpp_reachable_save_set: "cpp_reachable cw xs \<Longrightarrow> save_set_inv (cpp_clients cw) xs"
proof (induction rule: cpp_reachable.induct)
  case (start xs0 cw xs)
  then show ?case using cpp_startup_save_set by blast
next
  case (step cw xs e cw' xs')
  then show ?case using cpp_save_set_step cpp_reachable_inv by blast
qed

end
