(* ===== verification/Owen_C_Inv.thy ===== *)
theory Owen_C_Inv
  imports Owen_C Save_Set
begin

text \<open>
  The framing engine's invariant for \<open>src/owen.c\<close> (spec section 3): the registry
  maps distinct clients to distinct frames, no window is both a client and a frame,
  every frame is an existing child of the root and was allocated by the server, and the
  client array is well-formed. The event stream is the environment's: the one
  assumption made of it (\<open>map_request_ok\<close>) is that a \<open>MapRequest\<close> names an
  allocated window other than the root that is neither managed nor a frame. The X
  server delivers such requests, except a repeated one for a window the client mapped
  twice before the first was handled, which breaks the invariant
  (\<open>owen_cpp_map_request_twice\<close>). The invariant
  is established by the startup (\<open>owen_init\<close> and the re-scan of \<open>owen_reframe\<close>)
  and kept by every handler, so it holds in every state \<open>owen_reachable\<close> from a
  well-formed server (rule induction). The same induction shows \<open>save_set_inv\<close> of
  \<open>Save_Set\<close> in every reachable state: startup begins on a server where the window
  manager's connection owns no window.
\<close>

definition owen_inv :: "Owen \<Rightarrow> XServer \<Rightarrow> bool" where
  "owen_inv ow xs \<longleftrightarrow>
     owen_screen_wf (screen ow) \<and> root ow = xs_root xs \<and>
     reg_tree_inv (registry_of (screen ow)) xs"

definition map_request_ok :: "Owen \<Rightarrow> XServer \<Rightarrow> window \<Rightarrow> bool" where
  "map_request_ok ow xs w \<longleftrightarrow> reg_fresh (registry_of (screen ow)) xs w"

definition owen_event_ok :: "Owen \<Rightarrow> XServer \<Rightarrow> XEvent \<Rightarrow> bool" where
  "owen_event_ok ow xs e = (case e of MapRequest w \<Rightarrow> map_request_ok ow xs w | _ \<Rightarrow> True)"

inductive owen_reachable :: "Owen \<Rightarrow> XServer \<Rightarrow> bool" where
  start: "xs_wf xs0 \<Longrightarrow> distinct (xs_stack xs0) \<Longrightarrow> xs_owned xs0 = {} \<Longrightarrow>
          owen_main (Some xs0) [] = Inr (ow, xs) \<Longrightarrow>
          owen_reachable ow xs"
| step: "owen_reachable ow xs \<Longrightarrow> owen_event_ok ow xs e \<Longrightarrow>
         owen_handle_event e ow xs = Inr (ow', xs') \<Longrightarrow> owen_reachable ow' xs'"

subsection \<open>Handlers and the invariant\<close>

lemma owen_frame_not_reframed:
  "owen_frame w False ow xs = owen_frame_create w ow (snd (x_get_window_attributes w xs))"
  by (simp add: owen_frame_def split: prod.splits option.splits)

lemma owen_frame_create_Inr:
  assumes "owen_screen_wf (screen ow)" "client_count (screen ow) < int CLIENTS_CAPACITY"
  shows "owen_frame_create w ow xs =
    Inr (ow\<lparr>screen := (screen ow)\<lparr>clients := (clients (screen ow))[nat (client_count (screen ow)) :=
                    \<lparr>win = w, frame = xs_next_id xs\<rparr>], client_count := client_count (screen ow) + 1\<rparr>\<rparr>,
         x_map_window (xs_next_id xs) (x_reparent_window w (xs_next_id xs) 0 0 (x_add_to_save_set w
           (x_select_input (xs_next_id xs) (SubstructureRedirectMask OR SubstructureNotifyMask)
             (snd (x_create_simple_window (root ow) (pt_x (owen_frame_get_start_point (screen ow) (client_count (screen ow))))
                (pt_y (owen_frame_get_start_point (screen ow) (client_count (screen ow))))
                (owen_frame_get_width (screen ow)) (owen_frame_get_height (screen ow))
                BORDER_WIDTH BORDER_COLOR BG_COLOR xs))))))"
  using owen_clients_add_Inr [OF assms]
  by (simp add: owen_frame_create_def Let_def x_create_simple_window_def split: prod.splits)

lemma owen_frame_create_server:
  fixes xs :: XServer and fr w p :: window and x y wd ht bw :: int and bc bg :: nat and m :: "64 word"
  assumes ex: "x_exists xs p" and fr: "fr = xs_next_id xs" and w: "w \<noteq> fr"
  defines "xs1 \<equiv> snd (x_create_simple_window p x y wd ht bw bc bg xs)"
  defines "xs5 \<equiv> x_map_window fr (x_reparent_window w fr 0 0 (x_add_to_save_set w
                   (x_select_input fr m xs1)))"
  shows "x_parent_of xs5 = (if x_exists xs w then ((x_parent_of xs)(fr \<mapsto> p))(w \<mapsto> fr)
                             else (x_parent_of xs)(fr \<mapsto> p))"
    and "xs_root xs5 = xs_root xs" and "xs_next_id xs5 = Suc (xs_next_id xs)"
  using frame_sequence_tree [OF ex fr w x_same_tree_ops(1) [of xs1 fr m, unfolded xs1_def]]
  unfolding xs5_def xs1_def by simp_all

lemma owen_frame_create_effect:
  assumes inv: "owen_inv ow xs" and ok: "map_request_ok ow xs w"
    and room: "client_count (screen ow) < int CLIENTS_CAPACITY"
  obtains ow' xs' where "owen_frame_create w ow xs = Inr (ow', xs')"
    "registry_of (screen ow') = (registry_of (screen ow))(w \<mapsto> xs_next_id xs)"
    "owen_screen_wf (screen ow')" "root ow' = root ow"
    "x_parent_of xs' = (if x_exists xs w
                        then ((x_parent_of xs)(xs_next_id xs \<mapsto> root ow))(w \<mapsto> xs_next_id xs)
                        else (x_parent_of xs)(xs_next_id xs \<mapsto> root ow))"
    "xs_root xs' = xs_root xs" "xs_next_id xs' = Suc (xs_next_id xs)"
proof -
  have wf: "owen_screen_wf (screen ow)" and rt: "root ow = xs_root xs" and xwf: "xs_wf xs"
    using inv by (simp_all add: owen_inv_def reg_tree_inv_def)
  have ex: "x_exists xs (root ow)"
    using xs_wf_root_exists [OF xwf] rt by simp
  have wne: "w \<noteq> xs_next_id xs"
    using ok by (simp add: map_request_ok_def reg_fresh_def)
  obtain scr' where add: "owen_clients_add w (xs_next_id xs) (screen ow) = Inr scr'"
      and reg': "registry_of scr' = (registry_of (screen ow))(w \<mapsto> xs_next_id xs)"
      and wf': "owen_screen_wf scr'"
    using owen_clients_add_registry [OF wf _ room] ok by (auto simp: map_request_ok_def reg_fresh_def)
  note srv = owen_frame_create_server [OF ex refl wne]
  show ?thesis
    using that reg' wf' srv add owen_clients_add_Inr [OF wf room]
    by (simp add: owen_frame_create_Inr [OF wf room])
qed

lemma owen_inv_frames_fresh:
  assumes "owen_inv ow xs" "registry_of (screen ow) c = Some f"
  shows "c < xs_next_id xs" "f < xs_next_id xs" "c \<noteq> xs_root xs" "f \<noteq> xs_root xs"
    "x_parent_of xs f = Some (xs_root xs)"
  using assms reg_tree_inv_frames_fresh [of "registry_of (screen ow)" xs c f]
  by (simp_all add: owen_inv_def)

lemma owen_inv_frame_create:
  assumes inv: "owen_inv ow xs" and ok: "map_request_ok ow xs w"
    and run: "owen_frame_create w ow xs = Inr (ow', xs')"
  shows "owen_inv ow' xs'"
proof -
  have room: "client_count (screen ow) < int CLIENTS_CAPACITY"
  proof (rule ccontr)
    assume "\<not> client_count (screen ow) < int CLIENTS_CAPACITY"
    then have "client_count (screen ow) = int CLIENTS_CAPACITY"
      using inv by (simp add: owen_inv_def owen_screen_wf_def CLIENTS_CAPACITY_def) arith
    then show False
      using run owen_clients_add_overflow inv
      by (simp add: owen_frame_create_def Let_def owen_inv_def split: prod.splits)
  qed
  obtain ow1 xs1 where eff: "owen_frame_create w ow xs = Inr (ow1, xs1)"
    "registry_of (screen ow1) = (registry_of (screen ow))(w \<mapsto> xs_next_id xs)"
    "owen_screen_wf (screen ow1)" "root ow1 = root ow"
    "x_parent_of xs1 = (if x_exists xs w
        then ((x_parent_of xs)(xs_next_id xs \<mapsto> root ow))(w \<mapsto> xs_next_id xs)
        else (x_parent_of xs)(xs_next_id xs \<mapsto> root ow))"
    "xs_root xs1 = xs_root xs" "xs_next_id xs1 = Suc (xs_next_id xs)"
    by (rule owen_frame_create_effect [OF inv ok room])
  have rt: "root ow = xs_root xs" and rinv: "reg_tree_inv (registry_of (screen ow)) xs"
    using inv by (simp_all add: owen_inv_def)
  have "reg_tree_inv (registry_of (screen ow1)) xs1"
    using reg_tree_inv_frame [OF rinv ok [unfolded map_request_ok_def]] eff(2,5,6,7) rt by simp
  then show ?thesis
    using eff run rt by (simp add: owen_inv_def)
qed

lemma owen_inv_same_tree:
  "owen_inv ow xs \<Longrightarrow> x_same_tree xs xs' \<Longrightarrow> owen_inv ow xs'"
  using reg_tree_inv_same_tree by (simp add: owen_inv_def) (auto simp: x_same_tree_def)

lemma map_request_ok_same_tree:
  "map_request_ok ow xs w \<Longrightarrow> x_same_tree xs xs' \<Longrightarrow> map_request_ok ow xs' w"
  by (simp add: map_request_ok_def reg_fresh_def x_same_tree_def)

lemma x_on_map_request_frame_create:
  "x_on_map_request w ow xs =
     (case owen_frame_create w ow (snd (x_get_window_attributes w xs)) of
        Inl e \<Rightarrow> Inl e | Inr (ow', xs') \<Rightarrow> Inr (ow', x_map_window w xs'))"
  by (simp add: x_on_map_request_def owen_frame_not_reframed)

lemma owen_inv_map_request:
  assumes inv: "owen_inv ow xs" and ok: "map_request_ok ow xs w"
    and run: "x_on_map_request w ow xs = Inr (ow', xs')"
  shows "owen_inv ow' xs'"
proof -
  let ?xs0 = "snd (x_get_window_attributes w xs)"
  have s0: "x_same_tree xs ?xs0" by (rule x_same_tree_ops)
  obtain xs1 where fc: "owen_frame_create w ow ?xs0 = Inr (ow', xs1)" and xs': "xs' = x_map_window w xs1"
    using run by (auto simp: x_on_map_request_frame_create split: sum.splits)
  have "owen_inv ow' xs1"
    using owen_inv_frame_create [OF owen_inv_same_tree [OF inv s0] map_request_ok_same_tree [OF ok s0] fc] .
  then show ?thesis
    using owen_inv_same_tree x_same_tree_ops(5) xs' by blast
qed

lemma owen_inv_lookup:
  assumes "owen_inv ow xs"
  shows "owen_clients_get_index w (screen ow) = -1 \<longleftrightarrow> registry_of (screen ow) w = None"
    and "registry_of (screen ow) w = Some f \<Longrightarrow>
           0 \<le> owen_clients_get_index w (screen ow) \<and>
           frame (clients (screen ow) ! nat (owen_clients_get_index w (screen ow))) = f"
  using owen_clients_get_index_registry [of "screen ow" w] assms by (auto simp: owen_inv_def)

lemma x_on_unmap_notify_ignored:
  assumes "owen_inv ow xs" "registry_of (screen ow) (ue_window e) = None \<or> ue_event e = root ow"
  shows "x_on_unmap_notify e ow xs = Inr (ow, xs)"
  using assms owen_inv_lookup(1) [OF assms(1)] by (auto simp: x_on_unmap_notify_def)

lemma x_on_unmap_notify_unframe:
  assumes inv: "owen_inv ow xs" and reg: "registry_of (screen ow) w = Some f"
    and "ue_window e = w" "ue_event e \<noteq> root ow"
  shows "x_on_unmap_notify e ow xs =
           Inr (ow\<lparr>screen := owen_clients_delete w (screen ow)\<rparr>,
                x_destroy_window f (x_remove_from_save_set w
                  (x_reparent_window w (root ow) 0 0 (x_unmap_window f xs))))"
proof -
  have "owen_clients_get_index w (screen ow) \<noteq> -1"
    using owen_inv_lookup(1) [OF inv] reg by simp
  moreover have "0 \<le> owen_clients_get_index w (screen ow)"
    "frame (clients (screen ow) ! nat (owen_clients_get_index w (screen ow))) = f"
    using owen_inv_lookup(2) [OF inv reg] by simp_all
  ultimately show ?thesis
    using assms(3,4) by (simp add: x_on_unmap_notify_def owen_unframe_def Let_def)
qed

lemma owen_inv_unmap:
  assumes inv: "owen_inv ow xs" and run: "x_on_unmap_notify e ow xs = Inr (ow', xs')"
  shows "owen_inv ow' xs'"
proof (cases "registry_of (screen ow) (ue_window e) = None \<or> ue_event e = root ow")
  case True
  then show ?thesis
    using x_on_unmap_notify_ignored [OF inv True] run inv by simp
next
  case False
  let ?m = "registry_of (screen ow)" and ?w = "ue_window e"
  obtain f where reg: "?m ?w = Some f" and ev: "ue_event e \<noteq> root ow"
    using False by auto
  have rt: "root ow = xs_root xs" and wf: "owen_screen_wf (screen ow)"
    and rinv: "reg_tree_inv ?m xs"
    using inv by (simp_all add: owen_inv_def)
  have eq: "ow' = ow\<lparr>screen := owen_clients_delete ?w (screen ow)\<rparr>"
    "xs' = x_destroy_window f (x_remove_from_save_set ?w
             (x_reparent_window ?w (xs_root xs) 0 0 (x_unmap_window f xs)))"
    using x_on_unmap_notify_unframe [OF inv reg refl ev] run rt by simp_all
  then show ?thesis
    using reg_tree_inv_unframe [OF rinv reg] owen_clients_delete_registry [OF wf] eq rt
    by (simp add: owen_inv_def)
qed

lemma x_on_configure_request_tree:
  "fst (x_on_configure_request e ow xs) = ow \<and> x_same_tree xs (snd (x_on_configure_request e ow xs))"
  by (auto simp: x_on_configure_request_def Let_def intro: x_same_tree_trans x_same_tree_ops(7))

lemma owen_inv_step:
  assumes inv: "owen_inv ow xs" and ok: "owen_event_ok ow xs e"
    and run: "owen_handle_event e ow xs = Inr (ow', xs')"
  shows "owen_inv ow' xs'"
proof (cases e)
  case (MapRequest w)
  then show ?thesis
    using owen_inv_map_request [OF inv _ ] ok run by (simp add: owen_event_ok_def)
next
  case (ConfigureRequest c)
  then show ?thesis
    using x_on_configure_request_tree [of c ow xs] run owen_inv_same_tree [OF inv] by auto
next
  case (UnmapNotify u)
  then show ?thesis
    using owen_inv_unmap [OF inv] run by simp
qed (use inv run in simp_all)

lemma owen_frame_create_room:
  assumes "owen_screen_wf (screen ow)" "owen_frame_create w ow xs = Inr r"
  shows "client_count (screen ow) < int CLIENTS_CAPACITY"
proof (rule ccontr)
  assume "\<not> client_count (screen ow) < int CLIENTS_CAPACITY"
  then have "client_count (screen ow) = int CLIENTS_CAPACITY"
    using assms(1) by (simp add: owen_screen_wf_def CLIENTS_CAPACITY_def) arith
  then show False
    using assms owen_clients_add_overflow
    by (simp add: owen_frame_create_def Let_def split: prod.splits)
qed

text \<open>\<open>owen_frame\<close> either leaves the window alone after reading its attributes or
  frames it with \<open>owen_frame_create\<close>.\<close>

lemma owen_frame_cases:
  assumes "owen_frame w b ow xs = Inr (ow', xs')"
  shows "(ow' = ow \<and> xs' = snd (x_get_window_attributes w xs)) \<or>
         owen_frame_create w ow (snd (x_get_window_attributes w xs)) = Inr (ow', xs')"
proof -
  obtain at xs0 where at: "x_get_window_attributes w xs = (at, xs0)"
    by (cases "x_get_window_attributes w xs")
  show ?thesis
  proof (cases at)
    case None
    then show ?thesis using assms at by (simp add: owen_frame_def split: if_splits)
  next
    case (Some a)
    then show ?thesis
      using assms at by (cases "b \<and> (wa_override_redirect a \<or> wa_map_state a \<noteq> IsViewable)")
                         (simp_all add: owen_frame_def)
  qed
qed

lemma owen_frame_reframed_step:
  assumes inv: "owen_inv ow xs" and ok: "map_request_ok ow xs w"
    and run: "owen_frame w True ow xs = Inr (ow', xs')"
  shows "owen_inv ow' xs' \<and> xs_root xs' = xs_root xs \<and> xs_next_id xs \<le> xs_next_id xs' \<and>
         (registry_of (screen ow') = registry_of (screen ow) \<or>
          registry_of (screen ow') = (registry_of (screen ow))(w \<mapsto> xs_next_id xs))"
proof -
  let ?xs0 = "snd (x_get_window_attributes w xs)"
  have s0: "x_same_tree xs ?xs0" by (rule x_same_tree_ops)
  have inv0: "owen_inv ow ?xs0" and ok0: "map_request_ok ow ?xs0 w"
    using owen_inv_same_tree [OF inv s0] map_request_ok_same_tree [OF ok s0] .
  have n0: "xs_next_id ?xs0 = xs_next_id xs" "xs_root ?xs0 = xs_root xs"
    using s0 by (simp_all add: x_same_tree_def)
  consider (skip) "ow' = ow" "xs' = ?xs0" | (create) "owen_frame_create w ow ?xs0 = Inr (ow', xs')"
    using owen_frame_cases [OF run] by blast
  then show ?thesis
  proof cases
    case skip
    then show ?thesis using inv0 n0 by simp
  next
    case create
    have room: "client_count (screen ow) < int CLIENTS_CAPACITY"
      using owen_frame_create_room create inv by (simp add: owen_inv_def)
    obtain ow1 xs1 where eff: "owen_frame_create w ow ?xs0 = Inr (ow1, xs1)"
      "registry_of (screen ow1) = (registry_of (screen ow))(w \<mapsto> xs_next_id ?xs0)"
      "xs_root xs1 = xs_root ?xs0" "xs_next_id xs1 = Suc (xs_next_id ?xs0)"
      by (rule owen_frame_create_effect [OF inv0 ok0 room])
    then show ?thesis
      using create owen_inv_frame_create [OF inv0 ok0 create] n0 by simp
  qed
qed

lemma owen_frame_all_inv:
  assumes "owen_inv ow xs" "distinct tops"
    and "\<forall>w \<in> set tops. map_request_ok ow xs w"
    and "owen_frame_all tops ow xs = Inr (ow', xs')"
  shows "owen_inv ow' xs' \<and> xs_root xs' = xs_root xs"
  using assms
proof (induction tops arbitrary: ow xs)
  case Nil
  then show ?case by simp
next
  case (Cons w tops)
  obtain ow1 xs1 where fr: "owen_frame w True ow xs = Inr (ow1, xs1)"
    and rest: "owen_frame_all tops ow1 xs1 = Inr (ow', xs')"
    using Cons.prems(4) by (auto split: sum.splits)
  have okw: "map_request_ok ow xs w" using Cons.prems(3) by simp
  note st = owen_frame_reframed_step [OF Cons.prems(1) okw fr]
  have "\<forall>v \<in> set tops. map_request_ok ow1 xs1 v"
  proof
    fix v assume v: "v \<in> set tops"
    then have okv: "map_request_ok ow xs v" and vw: "v \<noteq> w"
      using Cons.prems(2,3) by auto
    have "registry_of (screen ow) w = None" using okw by (simp add: map_request_ok_def reg_fresh_def)
    then show "map_request_ok ow1 xs1 v"
      using okv vw st reg_fresh_mono reg_fresh_upd unfolding map_request_ok_def by metis
  qed
  then show ?case
    using Cons.IH [OF _ _ _ rest] st Cons.prems(2) by simp
qed

lemma fold_on_vm_detected:
  "screen (fold (\<lambda>e s. on_vm_detected s e) es ow) = screen ow \<and>
   root (fold (\<lambda>e s. on_vm_detected s e) es ow) = root ow"
  by (induction es arbitrary: ow) (simp_all add: on_vm_detected_def)

lemma owen_init_Inr:
  assumes wf: "xs_wf xs0" and run: "owen_init (Some xs0) = Inr (ow, xs)"
  shows "owen_inv ow xs \<and> registry_of (screen ow) = Map.empty \<and> xs_stack xs = xs_stack xs0"
proof -
  let ?o0 = "\<lparr>root = xs_root xs0, screen = owen_screen_zero, wm_detected = False\<rparr>"
  let ?xs1 = "x_select_input (xs_root xs0)
                (SubstructureRedirectMask OR SubstructureNotifyMask OR ButtonPressMask) xs0"
  obtain o1 xs2 where sync: "x_sync on_vm_detected ?o0 ?xs1 = (o1, xs2)"
    by (cases "x_sync on_vm_detected ?o0 ?xs1")
  have t: "x_same_tree xs0 xs2"
    using x_same_tree_ops(1) [of xs0] x_same_tree_ops(15) [of ?xs1 on_vm_detected ?o0] sync
    by (auto intro: x_same_tree_trans)
  have o1: "screen o1 = owen_screen_zero" "root o1 = xs_root xs0"
    using sync fold_on_vm_detected [of _ ?o0] by (auto simp: x_sync_def)
  have stack: "xs_stack xs2 = xs_stack xs0"
    using sync by (auto simp: x_sync_def x_unfold Let_def split: option.splits)
  have res: "ow = o1\<lparr>screen := (screen o1)\<lparr>client_count := 0, index := xs_default_screen xs2,
                height := xs_display_height xs2, width := xs_display_width xs2\<rparr>\<rparr>" "xs = xs2"
    using run sync by (auto simp: owen_init_def split: if_splits)
  have reg: "registry_of (screen ow) = Map.empty"
    using res o1 by (simp add: registry_of_def live_clients_def)
  have "owen_screen_wf (screen ow)"
    using res o1 by (simp add: owen_screen_wf_def owen_screen_zero_def live_clients_def)
  moreover have "root ow = xs_root xs" "xs_wf xs"
    using res o1 t x_same_tree_wf [OF t] wf by (simp_all add: x_same_tree_def)
  ultimately show ?thesis
    using reg res stack by (simp add: owen_inv_def reg_tree_inv_def)
qed

lemma owen_reframe_inv:
  assumes inv: "owen_inv ow xs" and empty: "registry_of (screen ow) = Map.empty"
    and dist: "distinct (xs_stack xs)" and run: "owen_reframe ow xs = Inr (ow', xs')"
  shows "owen_inv ow' xs'"
proof -
  let ?xs1 = "x_grab_server xs"
  have s1: "x_same_tree xs ?xs1" by (rule x_same_tree_ops)
  have rt: "root ow = xs_root ?xs1" and xwf: "xs_wf ?xs1" and dist1: "distinct (xs_stack ?xs1)"
    using inv x_same_tree_wf [OF s1] s1 dist
    by (simp_all add: owen_inv_def reg_tree_inv_def x_same_tree_def x_grab_server_def x_log_def)
  obtain tops xs2 where qt: "x_query_tree (xs_root ?xs1) ?xs1 = (Some tops, xs2)" and "distinct tops"
      and fresh: "\<forall>w \<in> set tops. reg_fresh Map.empty xs2 w" and s2: "x_same_tree ?xs1 xs2"
    by (rule x_query_tree_root_fresh [OF xwf dist1])
  obtain xs3 where fa: "owen_frame_all tops ow xs2 = Inr (ow', xs3)" and xs': "xs' = x_ungrab_server xs3"
    using run qt rt by (auto simp: owen_reframe_def Let_def split: sum.splits)
  have inv2: "owen_inv ow xs2"
    using owen_inv_same_tree [OF inv] s1 s2 x_same_tree_trans by blast
  moreover have "\<forall>w \<in> set tops. map_request_ok ow xs2 w"
    using fresh empty by (simp add: map_request_ok_def)
  ultimately have "owen_inv ow' xs3"
    using owen_frame_all_inv [OF inv2 _ _ fa] \<open>distinct tops\<close> by blast
  then show ?thesis
    using owen_inv_same_tree x_same_tree_ops(11) xs' by blast
qed

lemma owen_startup_inv:
  assumes "xs_wf xs0" "distinct (xs_stack xs0)" "owen_main (Some xs0) [] = Inr (ow, xs)"
  shows "owen_inv ow xs"
proof -
  obtain ow1 xs1 where init: "owen_init (Some xs0) = Inr (ow1, xs1)"
      and re: "owen_reframe ow1 xs1 = Inr (ow, xs)"
    using assms(3) by (auto simp: owen_main_def split: sum.splits)
  note i = owen_init_Inr [OF assms(1) init]
  show ?thesis
    using owen_reframe_inv [OF conjunct1 [OF i] _ _ re] i assms(2) by simp
qed

lemma owen_reachable_inv: "owen_reachable ow xs \<Longrightarrow> owen_inv ow xs"
proof (induction rule: owen_reachable.induct)
  case (start xs0 ow xs)
  then show ?case using owen_startup_inv by blast
next
  case (step ow xs e ow' xs')
  then show ?case by (blast intro: owen_inv_step)
qed

subsection \<open>The save set\<close>

text \<open>The C window manager keeps \<open>save_set_inv\<close>: its frames are the windows its
  connection owns and its clients are in the save set, inside their frames.\<close>

lemma owen_frame_create_save_set:
  assumes inv: "owen_inv ow xs" and sinv: "save_set_inv (registry_of (screen ow)) xs"
    and ok: "map_request_ok ow xs w" and run: "owen_frame_create w ow xs = Inr (ow', xs')"
  shows "save_set_inv (registry_of (screen ow')) xs'"
proof -
  let ?s = "screen ow" and ?n = "xs_next_id xs"
  have wf: "owen_screen_wf ?s" and rt: "root ow = xs_root xs"
    and rinv: "reg_tree_inv (registry_of ?s) xs"
    using inv by (simp_all add: owen_inv_def)
  have room: "client_count ?s < int CLIENTS_CAPACITY" by (rule owen_frame_create_room [OF wf run])
  obtain ow1 xs1 where eff: "owen_frame_create w ow xs = Inr (ow1, xs1)"
      "registry_of (screen ow1) = (registry_of ?s)(w \<mapsto> ?n)"
    using owen_frame_create_effect [OF inv ok room] by blast
  have reg: "registry_of (screen ow') = (registry_of ?s)(w \<mapsto> ?n)" using eff run by simp
  have xs': "xs' = x_map_window ?n (x_reparent_window w ?n 0 0 (x_add_to_save_set w
           (x_select_input ?n (SubstructureRedirectMask OR SubstructureNotifyMask)
             (snd (x_create_simple_window (root ow) (pt_x (owen_frame_get_start_point ?s (client_count ?s)))
                (pt_y (owen_frame_get_start_point ?s (client_count ?s)))
                (owen_frame_get_width ?s) (owen_frame_get_height ?s)
                BORDER_WIDTH BORDER_COLOR BG_COLOR xs)))))"
    using run owen_frame_create_Inr [OF wf room] by simp
  show ?thesis
    unfolding reg xs' rt
    by (rule save_set_inv_frame [OF rinv sinv ok [unfolded map_request_ok_def] x_same_env_ops(1)])
qed

lemma owen_frame_save_set:
  assumes inv: "owen_inv ow xs" and sinv: "save_set_inv (registry_of (screen ow)) xs"
    and ok: "map_request_ok ow xs w" and run: "owen_frame w b ow xs = Inr (ow', xs')"
  shows "save_set_inv (registry_of (screen ow')) xs'"
proof -
  let ?xs0 = "snd (x_get_window_attributes w xs)"
  have e0: "x_same_env xs ?xs0" by (rule x_same_env_ops)
  have s0: "x_same_tree xs ?xs0" by (rule x_same_tree_ops)
  note sinv0 = save_set_inv_same_env [OF sinv e0]
  from owen_frame_cases [OF run] show ?thesis
  proof
    assume "ow' = ow \<and> xs' = ?xs0"
    then show ?thesis using sinv0 by simp
  next
    assume "owen_frame_create w ow ?xs0 = Inr (ow', xs')"
    then show ?thesis
      using owen_frame_create_save_set [OF owen_inv_same_tree [OF inv s0] sinv0
              map_request_ok_same_tree [OF ok s0]] by blast
  qed
qed

text \<open>Framing one pre-existing window leaves the others fresh.\<close>

lemma owen_frame_reframed_fresh:
  assumes inv: "owen_inv ow xs" and okw: "map_request_ok ow xs w"
    and fr: "owen_frame w True ow xs = Inr (ow1, xs1)"
    and okv: "map_request_ok ow xs v" and vw: "v \<noteq> w"
  shows "map_request_ok ow1 xs1 v"
proof -
  note st = owen_frame_reframed_step [OF inv okw fr]
  have "registry_of (screen ow) w = None" using okw by (simp add: map_request_ok_def reg_fresh_def)
  then show ?thesis
    using okv vw st reg_fresh_mono reg_fresh_upd unfolding map_request_ok_def by metis
qed

lemma owen_frame_all_save_set:
  assumes "owen_inv ow xs" "save_set_inv (registry_of (screen ow)) xs" "distinct tops"
    and "\<forall>w \<in> set tops. map_request_ok ow xs w"
    and "owen_frame_all tops ow xs = Inr (ow', xs')"
  shows "save_set_inv (registry_of (screen ow')) xs'"
  using assms
proof (induction tops arbitrary: ow xs)
  case Nil
  then show ?case by simp
next
  case (Cons w tops)
  obtain ow1 xs1 where fr: "owen_frame w True ow xs = Inr (ow1, xs1)"
    and rest: "owen_frame_all tops ow1 xs1 = Inr (ow', xs')"
    using Cons.prems(5) by (auto split: sum.splits)
  have okw: "map_request_ok ow xs w" using Cons.prems(4) by simp
  note st = owen_frame_reframed_step [OF Cons.prems(1) okw fr]
  note sv = owen_frame_save_set [OF Cons.prems(1,2) okw fr]
  have "\<forall>v \<in> set tops. map_request_ok ow1 xs1 v"
    using owen_frame_reframed_fresh [OF Cons.prems(1) okw fr] Cons.prems(3,4) by auto
  then show ?case
    using Cons.IH [OF _ sv _ _ rest] st Cons.prems(3) by simp
qed

text \<open>Startup: the handshake, then \<open>owen_frame_all\<close> on the root's children, under the
  server grab.\<close>

lemma owen_startup_reframe:
  assumes wf: "xs_wf xs0" and dist: "distinct (xs_stack xs0)" and own: "xs_owned xs0 = {}"
    and run: "owen_main (Some xs0) [] = Inr (ow, xs)"
  obtains ow1 xs2 tops xs3 where "owen_inv ow1 xs2" "registry_of (screen ow1) = Map.empty"
    "save_set_inv Map.empty xs2" "distinct tops" "\<forall>w \<in> set tops. map_request_ok ow1 xs2 w"
    "owen_frame_all tops ow1 xs2 = Inr (ow, xs3)" "xs = x_ungrab_server xs3"
proof -
  obtain ow1 xs1 where init: "owen_init (Some xs0) = Inr (ow1, xs1)"
      and re: "owen_reframe ow1 xs1 = Inr (ow, xs)"
    using run by (auto simp: owen_main_def split: sum.splits)
  note i = owen_init_Inr [OF wf init]
  let ?xsa = "x_select_input (xs_root xs0)
                (SubstructureRedirectMask OR SubstructureNotifyMask OR ButtonPressMask) xs0"
  let ?o0 = "\<lparr>root = xs_root xs0, screen = owen_screen_zero, wm_detected = False\<rparr>"
  have "xs1 = snd (x_sync on_vm_detected ?o0 ?xsa)"
    using init by (auto simp: owen_init_def split: prod.splits if_splits)
  then have "x_same_env xs0 xs1"
    using x_same_env_ops(1) [of xs0] x_same_env_ops(13) [of ?xsa] x_same_env_trans by metis
  then have "xs_owned xs1 = {}" using own by (simp add: x_same_env_def)
  then have s1: "save_set_inv Map.empty xs1" by (rule save_set_inv_empty)
  let ?xsg = "x_grab_server xs1"
  have inv1: "owen_inv ow1 xs1" using i by simp
  have rt: "root ow1 = xs_root ?xsg" and xwf: "xs_wf ?xsg" and dist1: "distinct (xs_stack ?xsg)"
    using inv1 x_same_tree_wf [OF x_same_tree_ops(10) [of xs1]] i dist
    by (simp_all add: owen_inv_def reg_tree_inv_def x_grab_server_def x_log_def)
  obtain tops xs2 where qt: "x_query_tree (xs_root ?xsg) ?xsg = (Some tops, xs2)" and dt: "distinct tops"
      and fresh: "\<forall>w \<in> set tops. reg_fresh Map.empty xs2 w"
    by (rule x_query_tree_root_fresh [OF xwf dist1])
  have e2: "x_same_env xs1 xs2"
    using x_same_env_ops(8) [of xs1] x_same_env_ops(12) [of ?xsg "xs_root ?xsg"] qt x_same_env_trans
    by (metis snd_conv)
  obtain xs3 where fa: "owen_frame_all tops ow1 xs2 = Inr (ow, xs3)" and xs: "xs = x_ungrab_server xs3"
    using re qt rt by (auto simp: owen_reframe_def Let_def split: sum.splits)
  show ?thesis
  proof (rule that [OF owen_inv_same_tree [OF inv1 x_same_env_tree [OF e2]] _
                       save_set_inv_same_env [OF s1 e2] dt _ fa xs])
    show "registry_of (screen ow1) = Map.empty" using i by simp
    show "\<forall>w \<in> set tops. map_request_ok ow1 xs2 w" using fresh i by (simp add: map_request_ok_def)
  qed
qed

lemma owen_startup_save_set:
  assumes wf: "xs_wf xs0" and dist: "distinct (xs_stack xs0)" and own: "xs_owned xs0 = {}"
    and run: "owen_main (Some xs0) [] = Inr (ow, xs)"
  shows "save_set_inv (registry_of (screen ow)) xs"
proof -
  obtain ow1 xs2 tops xs3 where st: "owen_inv ow1 xs2" "registry_of (screen ow1) = Map.empty"
    "save_set_inv Map.empty xs2" "distinct tops" "\<forall>w \<in> set tops. map_request_ok ow1 xs2 w"
    "owen_frame_all tops ow1 xs2 = Inr (ow, xs3)" "xs = x_ungrab_server xs3"
    by (rule owen_startup_reframe [OF assms])
  have "save_set_inv (registry_of (screen ow)) xs3"
    using owen_frame_all_save_set [OF st(1) _ st(4,5,6)] st(2,3) by simp
  then show ?thesis
    using save_set_inv_same_env x_same_env_ops(9) st(7) by blast
qed

lemma owen_save_set_step:
  assumes inv: "owen_inv ow xs" and sinv: "save_set_inv (registry_of (screen ow)) xs"
    and ok: "owen_event_ok ow xs e" and run: "owen_handle_event e ow xs = Inr (ow', xs')"
  shows "save_set_inv (registry_of (screen ow')) xs'"
proof (cases e)
  case (MapRequest w)
  then obtain xs1 where fr: "owen_frame w False ow xs = Inr (ow', xs1)" and xs': "xs' = x_map_window w xs1"
    using run by (auto simp: x_on_map_request_def split: sum.splits)
  have "save_set_inv (registry_of (screen ow')) xs1"
    using owen_frame_save_set [OF inv sinv _ fr] ok MapRequest by (simp add: owen_event_ok_def)
  then show ?thesis using save_set_inv_same_env x_same_env_ops(3) xs' by blast
next
  case (ConfigureRequest c)
  have "x_same_env xs (snd (x_on_configure_request c ow xs))"
    by (auto simp: x_on_configure_request_def Let_def intro: x_same_env_trans x_same_env_ops(5))
  then show ?thesis
    using ConfigureRequest run save_set_inv_same_env [OF sinv] x_on_configure_request_tree [of c ow xs]
    by auto
next
  case (UnmapNotify u)
  show ?thesis
  proof (cases "registry_of (screen ow) (ue_window u) = None \<or> ue_event u = root ow")
    case True
    then show ?thesis using x_on_unmap_notify_ignored [OF inv True] run UnmapNotify sinv by simp
  next
    case False
    then obtain f where reg: "registry_of (screen ow) (ue_window u) = Some f"
      and ev: "ue_event u \<noteq> root ow" by auto
    have wf: "owen_screen_wf (screen ow)" and rt: "root ow = xs_root xs"
      and rinv: "reg_tree_inv (registry_of (screen ow)) xs"
      using inv by (simp_all add: owen_inv_def)
    show ?thesis
      using x_on_unmap_notify_unframe [OF inv reg refl ev] run UnmapNotify rt
            save_set_inv_unframe [OF rinv sinv reg] owen_clients_delete_registry(1) [OF wf]
      by auto
  qed
qed (use run sinv in simp_all)

lemma owen_reachable_save_set:
  "owen_reachable ow xs \<Longrightarrow> save_set_inv (registry_of (screen ow)) xs"
proof (induction rule: owen_reachable.induct)
  case (start xs0 ow xs)
  then show ?case using owen_startup_save_set by blast
next
  case (step ow xs e ow' xs')
  then show ?case using owen_save_set_step owen_reachable_inv by blast
qed

end
