(* ===== verification/Owen_C_Claims.thy ===== *)
theory Owen_C_Claims
  imports Owen_C_Inv
begin

text \<open>
  The behaviour of \<open>src/owen.c\<close> handler by handler (spec sections 3 to 5 and 7):
  what a \<open>MapRequest\<close>, an \<open>UnmapNotify\<close> and a \<open>ConfigureRequest\<close> do to the
  registry and which requests they send in which order, the startup handshake, the
  re-scan under a server grab, and that every reachable state keeps the registry a
  bijection and can handle every event, and that closing the connection in any
  reachable state gives every client back to the root. The witnesses run the model on a small
  display (\<open>demo_server\<close>: a 1920x1080 root with one mapped and two unmapped
  top-level windows) by simplification.
\<close>

definition demo_win :: "window \<Rightarrow> bool \<Rightarrow> XWin" where
  "demo_win p m = \<lparr>xw_parent = p, xw_x = 0, xw_y = 0, xw_width = 640, xw_height = 480,
     xw_border_width = 0, xw_mapped = m, xw_override_redirect = False, xw_event_mask = 0\<rparr>"

definition demo_server :: XServer where
  "demo_server = \<lparr>xs_root = 1, xs_default_screen = 0, xs_display_width = 1920, xs_display_height = 1080,
     xs_windows = [1 \<mapsto> demo_win 0 True, 2 \<mapsto> demo_win 1 True, 3 \<mapsto> demo_win 1 False,
                   4 \<mapsto> demo_win 1 False],
     xs_stack = [2, 3, 4], xs_save_set = {}, xs_owned = {}, xs_next_id = 10, xs_grabbed = False,
     xs_other_wm = False, xs_pending_errors = [], xs_requests = []\<rparr>"

text \<open>A full client array: 256 live records with distinct clients.\<close>

definition full_screen :: OwenScreen where
  "full_screen = \<lparr>index = 0, height = 1080, width = 1920, client_count = 256,
     clients = map (\<lambda>i. \<lparr>win = i, frame = 0\<rparr>) [0..<256]\<rparr>"

subsection \<open>Evaluation on the demonstration display\<close>

lemmas demo_eval = owen_main_def owen_init_def owen_reframe_def demo_server_def demo_win_def
  x_request_defs x_log_def x_error_def x_exists_def x_update_win_def x_map_state_def x_mask_defs
  owen_frame_def owen_frame_create_def owen_screen_zero_def x_on_map_request_def
  owen_frame_get_width_def owen_frame_get_height_def owen_frame_get_start_point_def
  owen_clients_add_def on_vm_detected_def CLIENTS_CAPACITY_def BORDER_WIDTH_def
  registry_of_def live_clients_def client_pair_def take_update_swap

lemma demo_server_wf: "xs_wf demo_server" "distinct (xs_stack demo_server)" "xs_owned demo_server = {}"
  by (auto simp: xs_wf_def x_parent_of_def x_exists_def demo_server_def demo_win_def split: if_splits)

lemma demo_boot:
  "\<exists>ow xs. owen_main (Some demo_server) [] = Inr (ow, xs) \<and> root ow = 1 \<and>
     registry_of (screen ow) = [2 \<mapsto> 10] \<and> client_count (screen ow) = 1 \<and>
     width (screen ow) = 1920 \<and> height (screen ow) = 1080 \<and>
     xs_root xs = 1 \<and> xs_next_id xs = 11 \<and> xs_windows xs 3 = Some (demo_win 1 False) \<and>
     xs_windows xs 5 = None \<and> x_exists xs 2"
  by (simp add: demo_eval fun_eq_iff)

lemma demo_boot_reachable:
  "owen_main (Some demo_server) [] = Inr (ow, xs) \<Longrightarrow> owen_reachable ow xs"
  using owen_reachable.start [OF demo_server_wf] by blast

lemma owen_main_no_events:
  "owen_main d [] = Inr s \<Longrightarrow> \<exists>ow xs. owen_init d = Inr (ow, xs) \<and> owen_reframe ow xs = Inr s"
  by (auto simp: owen_main_def split: sum.splits)

subsection \<open>Helper lemmas\<close>


lemma owen_map_request_Inr:
  assumes inv: "owen_inv ow xs" and room: "client_count (screen ow) < int CLIENTS_CAPACITY"
  shows "owen_handle_event (MapRequest w) ow xs =
    Inr (ow\<lparr>screen := (screen ow)\<lparr>clients := (clients (screen ow))[nat (client_count (screen ow)) :=
                    \<lparr>win = w, frame = xs_next_id xs\<rparr>], client_count := client_count (screen ow) + 1\<rparr>\<rparr>,
         x_map_window w (x_map_window (xs_next_id xs) (x_reparent_window w (xs_next_id xs) 0 0 (x_add_to_save_set w
           (x_select_input (xs_next_id xs) (SubstructureRedirectMask OR SubstructureNotifyMask)
             (snd (x_create_simple_window (root ow) (pt_x (owen_frame_get_start_point (screen ow) (client_count (screen ow))))
                (pt_y (owen_frame_get_start_point (screen ow) (client_count (screen ow))))
                (owen_frame_get_width (screen ow)) (owen_frame_get_height (screen ow))
                BORDER_WIDTH BORDER_COLOR BG_COLOR (snd (x_get_window_attributes w xs)))))))))"
proof -
  have wf: "owen_screen_wf (screen ow)" using inv by (simp add: owen_inv_def reg_tree_inv_def)
  have "xs_next_id (snd (x_get_window_attributes w xs)) = xs_next_id xs"
    using x_same_tree_next [OF x_same_tree_ops(12)] .
  then show ?thesis
    by (simp add: x_on_map_request_frame_create owen_frame_create_Inr [OF wf room])
qed

text \<open>C7: A MapRequest for an unmanaged window, in a state satisfying the invariant and with room in the client array, registers the window with a fresh frame (the next server id), sends exactly the requests of owen_frame in the code order (attributes, create the frame at the layout geometry, select substructure events on it, add the client to the save set, reparent it into the frame at (0,0), map the frame, map the client), and the frame is a child of the root.\<close>

theorem owen_map_request_frames:
  assumes inv: "owen_inv ow xs" and ok: "map_request_ok ow xs w"
    and room: "client_count (screen ow) < int CLIENTS_CAPACITY"
    and geo: "owen_frame_geometry (screen ow) = (x, y, wd, ht)"
  shows "\<exists>ow' xs'. owen_handle_event (MapRequest w) ow xs = Inr (ow', xs') \<and>
     registry_of (screen ow') = (registry_of (screen ow))(w \<mapsto> xs_next_id xs) \<and>
     xs_requests xs' = xs_requests xs @
       [ReqGetAttributes w,
        ReqCreateWindow (xs_next_id xs) (root ow) x y wd ht BORDER_WIDTH BORDER_COLOR BG_COLOR,
        ReqSelectInput (xs_next_id xs) (SubstructureRedirectMask OR SubstructureNotifyMask),
        ReqAddToSaveSet w, ReqReparent w (xs_next_id xs) 0 0, ReqMap (xs_next_id xs), ReqMap w] \<and>
     x_parent_of xs' (xs_next_id xs) = Some (root ow)"
proof -
  have wf: "owen_screen_wf (screen ow)" using inv by (simp add: owen_inv_def reg_tree_inv_def)
  obtain scr' where "owen_clients_add w (xs_next_id xs) (screen ow) = Inr scr'"
      and reg': "registry_of scr' = (registry_of (screen ow))(w \<mapsto> xs_next_id xs)"
    using owen_clients_add_registry [OF wf _ room] ok by (auto simp: map_request_ok_def reg_fresh_def)
  then have reg: "registry_of ((screen ow)\<lparr>clients := (clients (screen ow))[nat (client_count (screen ow)) :=
                    \<lparr>win = w, frame = xs_next_id xs\<rparr>], client_count := client_count (screen ow) + 1\<rparr>) =
                  (registry_of (screen ow))(w \<mapsto> xs_next_id xs)"
    using owen_clients_add_Inr [OF wf room] by simp
  let ?xs0 = "snd (x_get_window_attributes w xs)"
  have s0: "x_same_tree xs ?xs0" by (rule x_same_tree_ops)
  have ex0: "x_exists ?xs0 (root ow)"
    using inv x_same_tree_exists [OF s0] xs_wf_root_exists by (simp add: owen_inv_def reg_tree_inv_def)
  have n0: "xs_next_id ?xs0 = xs_next_id xs"
    using x_same_tree_next [OF s0] .
  have wn: "w \<noteq> xs_next_id ?xs0" using ok n0 by (simp add: map_request_ok_def reg_fresh_def)
  note srv = owen_frame_create_server [OF ex0 refl wn, where x = x and y = y and wd = wd and ht = ht
    and bw = BORDER_WIDTH and bc = BORDER_COLOR and bg = BG_COLOR
    and m = "SubstructureRedirectMask OR SubstructureNotifyMask"]
  show ?thesis
    using owen_map_request_Inr [OF inv room, of w] geo reg srv(1) n0 wn
    by (simp add: xserver_simps owen_frame_geometry_def Let_def)
qed

text \<open>C8: An UnmapNotify for a managed client reported on its frame unregisters the client, destroys its frame, sends unmap frame, reparent client to the root at (0,0), remove from save set and destroy frame in that order, and leaves the client, if it still exists, a child of the root outside the save set.\<close>

theorem owen_unmap_unframes:
  assumes inv: "owen_inv ow xs" and reg: "registry_of (screen ow) w = Some f"
    and ev: "ue_window e = w" "ue_event e \<noteq> root ow"
  shows "\<exists>ow' xs'. owen_handle_event (UnmapNotify e) ow xs = Inr (ow', xs') \<and>
     registry_of (screen ow') = (registry_of (screen ow))(w := None) \<and>
     \<not> x_exists xs' f \<and>
     xs_requests xs' = xs_requests xs @
       [ReqUnmap f, ReqReparent w (root ow) 0 0, ReqRemoveFromSaveSet w, ReqDestroy f] \<and>
     (x_exists xs w \<longrightarrow> x_parent_of xs' w = Some (root ow) \<and> w \<notin> xs_save_set xs')"
proof -
  have wf: "owen_screen_wf (screen ow)" and rt: "root ow = xs_root xs" and xwf: "xs_wf xs"
    and disj: "dom (registry_of (screen ow)) \<inter> ran (registry_of (screen ow)) = {}"
    using inv by (simp_all add: owen_inv_def reg_tree_inv_def)
  have fr: "x_parent_of xs f = Some (xs_root xs)" "f \<noteq> xs_root xs"
    using owen_inv_frames_fresh [OF inv reg] by simp_all
  have wf_ne: "w \<noteq> f" using disj reg by (auto simp: ran_def)
  let ?xsF = "x_destroy_window f (x_remove_from_save_set w
                (x_reparent_window w (xs_root xs) 0 0 (x_unmap_window f xs)))"
  note srv = owen_unframe_server [OF xwf fr wf_ne]
  have run: "owen_handle_event (UnmapNotify e) ow xs =
               Inr (ow\<lparr>screen := owen_clients_delete w (screen ow)\<rparr>, ?xsF)"
    using x_on_unmap_notify_unframe [OF inv reg ev] rt by simp
  have gone: "\<not> x_exists ?xsF f"
    using srv(1) [of f] by (simp add: x_exists_parent_of)
  have restored: "x_exists xs w \<Longrightarrow> x_parent_of ?xsF w = Some (root ow) \<and> w \<notin> xs_save_set ?xsF"
  proof -
    assume ex: "x_exists xs w"
    have p: "x_parent_of ?xsF w = Some (xs_root xs)"
      using srv(1) [of w] wf_ne ex by simp
    have "x_exists (x_reparent_window w (xs_root xs) 0 0 (x_unmap_window f xs)) w"
      using ex xs_wf_root_exists [OF xwf]
      by (simp add: x_exists_parent_of x_reparent_window_tree)
    then show ?thesis
      using p rt by (auto simp: x_destroy_window_def x_remove_from_save_set_def Let_def
                                x_log_def x_error_def)
  qed
  show ?thesis
    using run owen_clients_delete_registry(1) [OF wf] gone restored rt by (simp add: xserver_simps)
qed

text \<open>C30: An UnmapNotify reported on the root window (the echo of a reparent) changes nothing: no request is sent and the registry is unchanged.\<close>

theorem owen_unmap_root_ignored:
  "ue_event e = root ow \<Longrightarrow> owen_handle_event (UnmapNotify e) ow xs = Inr (ow, xs)"
  by (simp add: x_on_unmap_notify_def)

text \<open>C31: A ConfigureRequest is granted verbatim: the same changes and value mask are applied to the frame of a managed client first and then to the client itself; an unmanaged window is configured alone; the registry is unchanged.\<close>

theorem owen_configure_forwarded:
  assumes "owen_inv ow xs"
  shows "owen_handle_event (ConfigureRequest e) ow xs =
     Inr (ow, x_configure_window (cr_window e) (cr_value_mask e)
                \<lparr>wc_x = cr_x e, wc_y = cr_y e, wc_width = cr_width e, wc_height = cr_height e,
                 wc_border_width = cr_border_width e, wc_sibling = cr_above e, wc_stack_mode = cr_detail e\<rparr>
                (case registry_of (screen ow) (cr_window e) of
                   None \<Rightarrow> xs
                 | Some f \<Rightarrow> x_configure_window f (cr_value_mask e)
                     \<lparr>wc_x = cr_x e, wc_y = cr_y e, wc_width = cr_width e, wc_height = cr_height e,
                      wc_border_width = cr_border_width e, wc_sibling = cr_above e,
                      wc_stack_mode = cr_detail e\<rparr> xs))"
proof (cases "registry_of (screen ow) (cr_window e)")
  case None
  then show ?thesis
    using owen_inv_lookup(1) [OF assms, of "cr_window e"]
    by (simp add: x_on_configure_request_def configure_changes_def Let_def)
next
  case (Some f)
  then show ?thesis
    using owen_inv_lookup(1) [OF assms, of "cr_window e"] owen_inv_lookup(2) [OF assms, of "cr_window e" f]
    by (simp add: x_on_configure_request_def configure_changes_def Let_def)
qed

text \<open>C40: During the startup re-scan a pre-existing window that is override-redirect or not viewable is left alone: only its attributes are read.\<close>

theorem owen_frame_preexisting_skipped:
  assumes "xs_windows xs w = Some v"
    and "xw_override_redirect v \<or> x_map_state xs v \<noteq> IsViewable"
  shows "owen_frame w True ow xs = Inr (ow, x_log (ReqGetAttributes w) xs)"
  using assms by (simp add: owen_frame_def x_get_window_attributes_def Let_def)

text \<open>C35: With 256 managed clients the C registry has no room: a MapRequest for a further window aborts (the code writes past the client array).\<close>

theorem owen_map_request_overflow:
  assumes "owen_screen_wf (screen ow)" "client_count (screen ow) = int CLIENTS_CAPACITY"
  shows "owen_handle_event (MapRequest w) ow xs = Inl ClientsOverflow"
  using assms owen_clients_add_overflow
  by (simp add: x_on_map_request_frame_create owen_frame_create_def Let_def split: prod.splits)

text \<open>C39: A MapRequest changes no window other than the client and its new frame.\<close>

theorem owen_map_request_keeps_others:
  assumes inv: "owen_inv ow xs" and run: "owen_handle_event (MapRequest w) ow xs = Inr (ow', xs')"
    and v: "v \<noteq> w" "v \<noteq> xs_next_id xs"
  shows "xs_windows xs' v = xs_windows xs v"
proof -
  have wf: "owen_screen_wf (screen ow)" using inv by (simp add: owen_inv_def reg_tree_inv_def)
  obtain r where "owen_frame_create w ow (snd (x_get_window_attributes w xs)) = Inr r"
    using run by (auto simp: x_on_map_request_frame_create split: sum.splits)
  then have room: "client_count (screen ow) < int CLIENTS_CAPACITY"
    using owen_frame_create_room [OF wf] by blast
  have n0: "xs_next_id (snd (x_get_window_attributes w xs)) = xs_next_id xs" by simp
  have "xs' = x_map_window w (x_map_window (xs_next_id xs) (x_reparent_window w (xs_next_id xs) 0 0
           (x_add_to_save_set w (x_select_input (xs_next_id xs) (SubstructureRedirectMask OR SubstructureNotifyMask)
             (snd (x_create_simple_window (root ow) (pt_x (owen_frame_get_start_point (screen ow) (client_count (screen ow))))
                (pt_y (owen_frame_get_start_point (screen ow) (client_count (screen ow))))
                (owen_frame_get_width (screen ow)) (owen_frame_get_height (screen ow))
                BORDER_WIDTH BORDER_COLOR BG_COLOR (snd (x_get_window_attributes w xs))))))))"
    using owen_map_request_Inr [OF inv room, of w] run by simp
  then show ?thesis
    using v n0 by (simp add: x_windows_other)
qed

lemma fold_on_vm_detected_flag:
  "wm_detected (fold (\<lambda>e s. on_vm_detected s e) es ow) \<longleftrightarrow>
     wm_detected ow \<or> BadAccess \<in> error_code ` set es"
  by (induction es arbitrary: ow) (auto simp: on_vm_detected_def)

lemma startup_select_redirect:
  "(SubstructureRedirectMask OR SubstructureNotifyMask OR ButtonPressMask) AND SubstructureRedirectMask \<noteq> 0"
  by (simp add: x_mask_defs)

text \<open>C33: If another client already holds substructure redirection on the root, startup fails with the other-window-manager error.\<close>

theorem owen_startup_rival:
  assumes "xs_wf xs0" "xs_other_wm xs0"
  shows "owen_init (Some xs0) = Inl AnotherWMDetected"
  using assms startup_select_redirect fold_on_vm_detected_flag
  by (simp add: owen_init_def x_select_input_def x_sync_def x_error_def x_log_def Let_def)

text \<open>C34: If no other window manager runs and no earlier BadAccess is pending, startup succeeds with an empty registry, the root and the display size of the server.\<close>

theorem owen_startup_ok:
  assumes "xs_wf xs0" "\<not> xs_other_wm xs0" "BadAccess \<notin> error_code ` set (xs_pending_errors xs0)"
  shows "\<exists>ow xs. owen_init (Some xs0) = Inr (ow, xs) \<and> root ow = xs_root xs0 \<and>
           registry_of (screen ow) = Map.empty \<and> client_count (screen ow) = 0 \<and>
           width (screen ow) = xs_display_width xs0 \<and> height (screen ow) = xs_display_height xs0"
  using assms fold_on_vm_detected_flag fold_on_vm_detected
  by (simp add: owen_init_def x_select_input_def x_sync_def x_update_win_def x_error_def x_log_def Let_def
                registry_of_def live_clients_def owen_screen_zero_def split: option.splits)


lemma owen_frame_create_requests:
  assumes "owen_frame_create w ow xs = Inr (ow', xs')"
  shows "\<exists>r. xs_requests xs' = xs_requests xs @ r \<and> ReqGrabServer \<notin> set r \<and> ReqUngrabServer \<notin> set r"
proof -
  obtain fr xs1 where c: "x_create_simple_window (root ow)
      (pt_x (owen_frame_get_start_point (screen ow) (client_count (screen ow))))
      (pt_y (owen_frame_get_start_point (screen ow) (client_count (screen ow))))
      (owen_frame_get_width (screen ow)) (owen_frame_get_height (screen ow))
      BORDER_WIDTH BORDER_COLOR BG_COLOR xs = (fr, xs1)"
    by (metis surj_pair)
  have "xs_requests xs1 = xs_requests xs @ [ReqCreateWindow (xs_next_id xs) (root ow)
      (pt_x (owen_frame_get_start_point (screen ow) (client_count (screen ow))))
      (pt_y (owen_frame_get_start_point (screen ow) (client_count (screen ow))))
      (owen_frame_get_width (screen ow)) (owen_frame_get_height (screen ow))
      BORDER_WIDTH BORDER_COLOR BG_COLOR]"
    using x_requests_ops(1) c by (metis snd_conv)
  then show ?thesis
    using assms c by (auto simp: owen_frame_create_def Let_def xserver_simps split: sum.splits)
qed

lemma owen_frame_requests:
  assumes "owen_frame w b ow xs = Inr (ow', xs')"
  shows "\<exists>r. xs_requests xs' = xs_requests xs @ r \<and> ReqGrabServer \<notin> set r \<and> ReqUngrabServer \<notin> set r"
proof -
  obtain at xs1 where at: "x_get_window_attributes w xs = (at, xs1)"
    by (cases "x_get_window_attributes w xs")
  have r1: "xs_requests xs1 = xs_requests xs @ [ReqGetAttributes w]"
    using x_requests_ops(15) [of w xs] at by simp
  have "(ow' = ow \<and> xs' = xs1) \<or> owen_frame_create w ow xs1 = Inr (ow', xs')"
  proof (cases at)
    case None
    then show ?thesis using assms at by (cases b) (simp_all add: owen_frame_def)
  next
    case (Some a)
    then show ?thesis using assms at by (simp add: owen_frame_def split: if_splits)
  qed
  then show ?thesis
  proof
    assume "ow' = ow \<and> xs' = xs1"
    then show ?thesis using r1 by auto
  next
    assume c: "owen_frame_create w ow xs1 = Inr (ow', xs')"
    then show ?thesis using owen_frame_create_requests [OF c] r1 by fastforce
  qed
qed

lemma owen_frame_all_requests:
  "owen_frame_all ws ow xs = Inr (ow', xs') \<Longrightarrow>
   \<exists>r. xs_requests xs' = xs_requests xs @ r \<and> ReqGrabServer \<notin> set r \<and> ReqUngrabServer \<notin> set r"
proof (induction ws arbitrary: ow xs)
  case Nil
  then show ?case by simp
next
  case (Cons w ws)
  obtain ow1 xs1 where fr: "owen_frame w True ow xs = Inr (ow1, xs1)"
    and rest: "owen_frame_all ws ow1 xs1 = Inr (ow', xs')"
    using Cons.prems by (auto split: sum.splits)
  show ?case
    using owen_frame_requests [OF fr] Cons.IH [OF rest] by fastforce
qed

text \<open>C1: In every reachable state the registry is a bijection between clients and frames, no window is both a client and a frame, and every frame is a child of the root.\<close>

theorem owen_registry_bijective:
  assumes "owen_reachable ow xs"
  shows "inj_on (registry_of (screen ow)) (dom (registry_of (screen ow))) \<and>
         dom (registry_of (screen ow)) \<inter> ran (registry_of (screen ow)) = {} \<and>
         (\<forall>c f. registry_of (screen ow) c = Some f \<longrightarrow> x_parent_of xs f = Some (root ow))"
  using owen_reachable_inv [OF assms] by (simp add: owen_inv_def reg_tree_inv_def)

text \<open>With room in the client array, no handler aborts on a state of the invariant.\<close>

lemma owen_handle_event_Inr:
  assumes inv: "owen_inv ow xs" and room: "client_count (screen ow) < int CLIENTS_CAPACITY"
  shows "\<exists>s. owen_handle_event e ow xs = Inr s"
proof (cases e)
  case (MapRequest w)
  then show ?thesis using owen_map_request_Inr [OF inv room, of w] by simp
next
  case (UnmapNotify u)
  show ?thesis
  proof (cases "registry_of (screen ow) (ue_window u)")
    case None
    then show ?thesis using UnmapNotify x_on_unmap_notify_ignored [OF inv] by simp
  next
    case (Some f)
    then show ?thesis
      using UnmapNotify x_on_unmap_notify_ignored [OF inv, of u]
            x_on_unmap_notify_unframe [OF inv Some refl] by (cases "ue_event u = root ow") simp_all
  qed
qed simp_all

text \<open>C2: In every reachable state an event the X server can deliver is handled without abort, provided the client array has room, and the resulting state is again reachable.\<close>

theorem owen_dispatch_progress:
  assumes reach: "owen_reachable ow xs" and ok: "owen_event_ok ow xs e"
    and room: "client_count (screen ow) < int CLIENTS_CAPACITY"
  shows "\<exists>ow' xs'. owen_handle_event e ow xs = Inr (ow', xs') \<and> owen_reachable ow' xs'"
  using owen_handle_event_Inr [OF owen_reachable_inv [OF reach] room, of e]
        owen_reachable.step [OF reach ok] by fastforce

text \<open>C32: The startup re-scan runs under a server grab: its requests start with the grab and the tree query of the root, end with the ungrab, and contain no other grab or ungrab.\<close>

theorem owen_reframe_grabbed:
  assumes "owen_reframe ow xs = Inr (ow', xs')"
  shows "\<exists>mid. xs_requests xs' = xs_requests xs @ [ReqGrabServer, ReqQueryTree (root ow)] @ mid @ [ReqUngrabServer] \<and>
           ReqGrabServer \<notin> set mid \<and> ReqUngrabServer \<notin> set mid"
proof -
  obtain tops xs2 where qt: "x_query_tree (root ow) (x_grab_server xs) = (Some tops, xs2)"
    and fa: "(case owen_frame_all tops ow xs2 of Inl e \<Rightarrow> Inl e | Inr (o', xs3) \<Rightarrow> Inr (o', x_ungrab_server xs3))
               = Inr (ow', xs')"
    using assms by (auto simp: owen_reframe_def Let_def split: prod.splits option.splits)
  obtain xs3 where fa3: "owen_frame_all tops ow xs2 = Inr (ow', xs3)" and xs': "xs' = x_ungrab_server xs3"
    using fa by (auto split: sum.splits)
  have r2: "xs_requests xs2 = xs_requests xs @ [ReqGrabServer, ReqQueryTree (root ow)]"
    using x_requests_ops(17) [of "root ow" "x_grab_server xs"] qt by (simp add: xserver_simps)
  show ?thesis
    using owen_frame_all_requests [OF fa3] r2 xs' by (auto simp: xserver_simps)
qed

subsection \<open>Witnesses\<close>

lemma demo_booted:
  obtains ow xs where "owen_main (Some demo_server) [] = Inr (ow, xs)" "owen_inv ow xs"
    "root ow = 1" "registry_of (screen ow) = [2 \<mapsto> 10]" "client_count (screen ow) = 1"
    "width (screen ow) = 1920" "height (screen ow) = 1080" "xs_root xs = 1" "xs_next_id xs = 11"
    "xs_windows xs 3 = Some (demo_win 1 False)" "xs_windows xs 5 = None" "x_exists xs 2"
  using demo_boot owen_reachable_inv [OF demo_boot_reachable] by blast

theorem owen_map_request_frames_witness:
  "\<exists>ow xs ow' xs'. owen_main (Some demo_server) [] = Inr (ow, xs) \<and>
     owen_handle_event (MapRequest 3) ow xs = Inr (ow', xs') \<and>
     registry_of (screen ow') = [2 \<mapsto> 10, 3 \<mapsto> 11] \<and>
     ReqCreateWindow 11 1 960 0 960 1080 BORDER_WIDTH BORDER_COLOR BG_COLOR \<in> set (xs_requests xs') \<and>
     x_parent_of xs' 11 = Some 1"
proof -
  obtain ow xs where run: "owen_main (Some demo_server) [] = Inr (ow, xs)" and inv: "owen_inv ow xs"
    and f: "root ow = 1" "registry_of (screen ow) = [2 \<mapsto> 10]" "client_count (screen ow) = 1"
      "width (screen ow) = 1920" "height (screen ow) = 1080" "xs_root xs = 1" "xs_next_id xs = 11"
    by (rule demo_booted)
  have ok: "map_request_ok ow xs 3" using f by (simp add: map_request_ok_def reg_fresh_def)
  have room: "client_count (screen ow) < int CLIENTS_CAPACITY" using f by (simp add: CLIENTS_CAPACITY_def)
  have geo: "owen_frame_geometry (screen ow) = (960, 0, 960, 1080)"
    using f by (simp add: owen_frame_geometry_def owen_frame_get_width_def owen_frame_get_height_def
                          owen_frame_get_start_point_def)
  obtain ow' xs' where "owen_handle_event (MapRequest 3) ow xs = Inr (ow', xs')"
      "registry_of (screen ow') = (registry_of (screen ow))(3 \<mapsto> xs_next_id xs)"
      "xs_requests xs' = xs_requests xs @
       [ReqGetAttributes 3,
        ReqCreateWindow (xs_next_id xs) (root ow) 960 0 960 1080 BORDER_WIDTH BORDER_COLOR BG_COLOR,
        ReqSelectInput (xs_next_id xs) (SubstructureRedirectMask OR SubstructureNotifyMask),
        ReqAddToSaveSet 3, ReqReparent 3 (xs_next_id xs) 0 0, ReqMap (xs_next_id xs), ReqMap 3]"
      "x_parent_of xs' (xs_next_id xs) = Some (root ow)"
    using owen_map_request_frames [OF inv ok room geo] by blast
  then show ?thesis using run f by auto
qed

theorem owen_unmap_unframes_witness:
  "\<exists>ow xs ow' xs'. owen_main (Some demo_server) [] = Inr (ow, xs) \<and>
     owen_handle_event (UnmapNotify \<lparr>ue_event = 10, ue_window = 2\<rparr>) ow xs = Inr (ow', xs') \<and>
     registry_of (screen ow') = Map.empty \<and> \<not> x_exists xs' 10 \<and>
     xs_requests xs' = xs_requests xs @ [ReqUnmap 10, ReqReparent 2 1 0 0, ReqRemoveFromSaveSet 2, ReqDestroy 10] \<and>
     (x_exists xs 2 \<longrightarrow> x_parent_of xs' 2 = Some 1 \<and> 2 \<notin> xs_save_set xs')"
proof -
  obtain ow xs where run: "owen_main (Some demo_server) [] = Inr (ow, xs)" and inv: "owen_inv ow xs"
    and f: "root ow = 1" "registry_of (screen ow) = [2 \<mapsto> 10]"
    by (rule demo_booted)
  have reg: "registry_of (screen ow) 2 = Some 10" using f by simp
  show ?thesis
    using owen_unmap_unframes [OF inv reg, of "\<lparr>ue_event = 10, ue_window = 2\<rparr>"] run f by auto
qed

theorem owen_unmap_root_ignored_witness:
  "\<exists>ow xs. owen_main (Some demo_server) [] = Inr (ow, xs) \<and>
     owen_handle_event (UnmapNotify \<lparr>ue_event = 1, ue_window = 2\<rparr>) ow xs = Inr (ow, xs) \<and>
     registry_of (screen ow) 2 = Some 10"
proof -
  obtain ow xs where run: "owen_main (Some demo_server) [] = Inr (ow, xs)"
    and f: "root ow = 1" "registry_of (screen ow) = [2 \<mapsto> 10]"
    by (rule demo_booted)
  show ?thesis
    using owen_unmap_root_ignored [of "\<lparr>ue_event = 1, ue_window = 2\<rparr>" ow xs] run f by auto
qed

theorem owen_configure_forwarded_witness:
  "\<exists>ow xs. owen_main (Some demo_server) [] = Inr (ow, xs) \<and>
     owen_handle_event (ConfigureRequest \<lparr>cr_window = 2, cr_x = 5, cr_y = 6, cr_width = 300, cr_height = 200,
        cr_border_width = 1, cr_above = 0, cr_detail = 0, cr_value_mask = 12\<rparr>) ow xs =
     Inr (ow, x_configure_window 2 (12)
                \<lparr>wc_x = 5, wc_y = 6, wc_width = 300, wc_height = 200, wc_border_width = 1,
                 wc_sibling = 0, wc_stack_mode = 0\<rparr>
              (x_configure_window 10 (12)
                \<lparr>wc_x = 5, wc_y = 6, wc_width = 300, wc_height = 200, wc_border_width = 1,
                 wc_sibling = 0, wc_stack_mode = 0\<rparr> xs))"
proof -
  obtain ow xs where run: "owen_main (Some demo_server) [] = Inr (ow, xs)" and inv: "owen_inv ow xs"
    and f: "registry_of (screen ow) = [2 \<mapsto> 10]"
    by (rule demo_booted)
  show ?thesis
    using owen_configure_forwarded [OF inv] run f by auto
qed

theorem owen_frame_preexisting_skipped_witness:
  "owen_frame 3 True \<lparr>root = 1, screen = owen_screen_zero, wm_detected = False\<rparr> demo_server =
   Inr (\<lparr>root = 1, screen = owen_screen_zero, wm_detected = False\<rparr>, x_log (ReqGetAttributes 3) demo_server)"
  using owen_frame_preexisting_skipped [of demo_server 3 "demo_win 1 False"
          "\<lparr>root = 1, screen = owen_screen_zero, wm_detected = False\<rparr>"]
  by (simp add: demo_server_def demo_win_def x_map_state_def)

theorem owen_map_request_overflow_witness:
  "owen_handle_event (MapRequest 3) \<lparr>root = 1, screen = full_screen, wm_detected = False\<rparr> demo_server =
   Inl ClientsOverflow"
proof -
  have "owen_screen_wf full_screen"
    by (simp add: owen_screen_wf_def full_screen_def live_clients_def CLIENTS_CAPACITY_def comp_def)
  then show ?thesis
    using owen_map_request_overflow [of "\<lparr>root = 1, screen = full_screen, wm_detected = False\<rparr>" 3 demo_server]
    by (simp add: full_screen_def CLIENTS_CAPACITY_def)
qed

theorem owen_map_request_keeps_others_witness:
  "\<exists>ow xs ow' xs'. owen_main (Some demo_server) [] = Inr (ow, xs) \<and>
     owen_handle_event (MapRequest 3) ow xs = Inr (ow', xs') \<and>
     xs_windows xs' 4 = xs_windows xs 4"
proof -
  obtain ow xs where run: "owen_main (Some demo_server) [] = Inr (ow, xs)" and inv: "owen_inv ow xs"
    and f: "client_count (screen ow) = 1" "xs_next_id xs = 11"
    by (rule demo_booted)
  have room: "client_count (screen ow) < int CLIENTS_CAPACITY" using f by (simp add: CLIENTS_CAPACITY_def)
  obtain s' where h: "owen_handle_event (MapRequest 3) ow xs = Inr s'"
    using owen_map_request_Inr [OF inv room, of 3] by simp
  obtain ow' xs' where "s' = (ow', xs')" by (cases s')
  then show ?thesis
    using owen_map_request_keeps_others [OF inv, of 3 ow' xs' 4] h run f by auto
qed

theorem owen_startup_rival_witness:
  "owen_init (Some (demo_server\<lparr>xs_other_wm := True\<rparr>)) = Inl AnotherWMDetected"
proof -
  have "xs_wf (demo_server\<lparr>xs_other_wm := True\<rparr>)"
    using demo_server_wf(1) by (simp add: xs_wf_def x_parent_of_def x_exists_def)
  then show ?thesis using owen_startup_rival by simp
qed

theorem owen_startup_ok_witness:
  "\<exists>ow xs. owen_init (Some demo_server) = Inr (ow, xs) \<and> root ow = 1 \<and>
     registry_of (screen ow) = Map.empty \<and> client_count (screen ow) = 0 \<and>
     width (screen ow) = 1920 \<and> height (screen ow) = 1080"
  using owen_startup_ok [OF demo_server_wf(1)] by (simp add: demo_server_def)

theorem owen_registry_bijective_witness:
  "\<exists>ow xs. owen_main (Some demo_server) [] = Inr (ow, xs) \<and> registry_of (screen ow) 2 = Some 10 \<and>
     inj_on (registry_of (screen ow)) (dom (registry_of (screen ow))) \<and>
     dom (registry_of (screen ow)) \<inter> ran (registry_of (screen ow)) = {} \<and>
     x_parent_of xs 10 = Some (root ow)"
proof -
  obtain ow xs where run: "owen_main (Some demo_server) [] = Inr (ow, xs)"
    and f: "registry_of (screen ow) = [2 \<mapsto> 10]"
    by (rule demo_booted)
  show ?thesis
    using owen_registry_bijective [OF demo_boot_reachable [OF run]] run f by auto
qed

theorem owen_dispatch_progress_witness:
  "\<exists>ow xs ow' xs'. owen_main (Some demo_server) [] = Inr (ow, xs) \<and>
     owen_handle_event (MapRequest 3) ow xs = Inr (ow', xs') \<and> owen_reachable ow' xs'"
proof -
  obtain ow xs where run: "owen_main (Some demo_server) [] = Inr (ow, xs)"
    and f: "root ow = 1" "registry_of (screen ow) = [2 \<mapsto> 10]" "client_count (screen ow) = 1"
      "xs_root xs = 1" "xs_next_id xs = 11"
    by (rule demo_booted)
  have ok: "owen_event_ok ow xs (MapRequest 3)" using f by (simp add: owen_event_ok_def map_request_ok_def reg_fresh_def)
  have room: "client_count (screen ow) < int CLIENTS_CAPACITY" using f by (simp add: CLIENTS_CAPACITY_def)
  show ?thesis
    using owen_dispatch_progress [OF demo_boot_reachable [OF run] ok room] run by blast
qed

theorem owen_reframe_grabbed_witness:
  "\<exists>ow xs s. owen_init (Some demo_server) = Inr (ow, xs) \<and> owen_reframe ow xs = Inr s \<and>
     (\<exists>mid. xs_requests (snd s) = xs_requests xs @ [ReqGrabServer, ReqQueryTree 1] @ mid @ [ReqUngrabServer] \<and>
        ReqGrabServer \<notin> set mid \<and> ReqUngrabServer \<notin> set mid)"
proof -
  obtain ow0 xs0 where run: "owen_main (Some demo_server) [] = Inr (ow0, xs0)" by (rule demo_booted)
  obtain ow xs where i: "owen_init (Some demo_server) = Inr (ow, xs)"
      and r: "owen_reframe ow xs = Inr (ow0, xs0)"
    using owen_main_no_events [OF run] by blast
  have "root ow = 1" using i by (auto simp: demo_eval)
  then show ?thesis using owen_reframe_grabbed [OF r] i r by auto
qed

subsection \<open>Round trip, bounds of the array and release of all clients\<close>


lemma owen_map_request_effect:
  assumes inv: "owen_inv ow xs" and ok: "map_request_ok ow xs w"
    and room: "client_count (screen ow) < int CLIENTS_CAPACITY"
  obtains ow' xs' where "owen_handle_event (MapRequest w) ow xs = Inr (ow', xs')"
    "registry_of (screen ow') = (registry_of (screen ow))(w \<mapsto> xs_next_id xs)"
    "x_parent_of xs' = (if x_exists xs w
                        then ((x_parent_of xs)(xs_next_id xs \<mapsto> root ow))(w \<mapsto> xs_next_id xs)
                        else (x_parent_of xs)(xs_next_id xs \<mapsto> root ow))"
    "root ow' = root ow" "xs_next_id xs' = Suc (xs_next_id xs)" "owen_inv ow' xs'"
proof -
  let ?xs0 = "snd (x_get_window_attributes w xs)"
  have s0: "x_same_tree xs ?xs0" by (rule x_same_tree_ops)
  have inv0: "owen_inv ow ?xs0" and ok0: "map_request_ok ow ?xs0 w"
    using owen_inv_same_tree [OF inv s0] map_request_ok_same_tree [OF ok s0] .
  obtain ow1 xs1 where eff: "owen_frame_create w ow ?xs0 = Inr (ow1, xs1)"
      "registry_of (screen ow1) = (registry_of (screen ow))(w \<mapsto> xs_next_id ?xs0)"
      "owen_screen_wf (screen ow1)" "root ow1 = root ow"
      "x_parent_of xs1 = (if x_exists ?xs0 w
                        then ((x_parent_of ?xs0)(xs_next_id ?xs0 \<mapsto> root ow))(w \<mapsto> xs_next_id ?xs0)
                        else (x_parent_of ?xs0)(xs_next_id ?xs0 \<mapsto> root ow))"
      "xs_root xs1 = xs_root ?xs0" "xs_next_id xs1 = Suc (xs_next_id ?xs0)"
    by (rule owen_frame_create_effect [OF inv0 ok0 room])
  have run: "owen_handle_event (MapRequest w) ow xs = Inr (ow1, x_map_window w xs1)"
    using eff(1) by (simp add: x_on_map_request_frame_create)
  have "owen_inv ow1 (x_map_window w xs1)"
    using owen_inv_map_request [OF inv ok] run by simp
  then show ?thesis
    using that run eff(2,4,5,7) s0 by (simp add: x_same_tree_def x_same_tree_exists [OF s0])
qed

text \<open>A client that calls \<open>XMapWindow\<close> twice before the window manager handles the
  first request gets two \<open>MapRequest\<close>s queued: the window stays unmapped until the
  window manager maps it. \<open>x_on_map_request\<close> has no check for a managed window, so
  the second one frames the client again: the array gets a second record for it and the
  client moves into a second frame, which the registry does not know.\<close>

lemma owen_map_request_twice_effect:
  assumes inv: "owen_inv ow xs" and ok: "map_request_ok ow xs w" and ex: "x_exists xs w"
    and room: "client_count (screen ow) + 1 < int CLIENTS_CAPACITY"
  shows "\<exists>ow' xs'. owen_run [MapRequest w, MapRequest w] ow xs = Inr (ow', xs') \<and>
           registry_of (screen ow') = (registry_of (screen ow))(w \<mapsto> xs_next_id xs) \<and>
           client_count (screen ow') = client_count (screen ow) + 2 \<and>
           x_parent_of xs' w = Some (Suc (xs_next_id xs)) \<and> \<not> owen_inv ow' xs'"
proof -
  let ?n = "xs_next_id xs"
  have room0: "client_count (screen ow) < int CLIENTS_CAPACITY" using room by simp
  obtain ow1 xs1 where h1: "owen_handle_event (MapRequest w) ow xs = Inr (ow1, xs1)"
      and reg1: "registry_of (screen ow1) = (registry_of (screen ow))(w \<mapsto> ?n)"
      and p1: "x_parent_of xs1 = (if x_exists xs w then ((x_parent_of xs)(?n \<mapsto> root ow))(w \<mapsto> ?n)
                                  else (x_parent_of xs)(?n \<mapsto> root ow))"
      and "root ow1 = root ow" and n1: "xs_next_id xs1 = Suc ?n" and inv1: "owen_inv ow1 xs1"
    by (rule owen_map_request_effect [OF inv ok room0])
  have wf0: "owen_screen_wf (screen ow)" using inv by (simp add: owen_inv_def)
  have wf1: "owen_screen_wf (screen ow1)" and rt1: "root ow1 = xs_root xs1"
    and xwf1: "xs_wf xs1"
    using inv1 by (simp_all add: owen_inv_def reg_tree_inv_def)
  have fresh: "registry_of (screen ow) w = None" and wlt: "w < ?n"
    using ok by (simp_all add: map_request_ok_def reg_fresh_def)
  have "card (dom (registry_of (screen ow1))) = Suc (card (dom (registry_of (screen ow))))"
    using reg1 fresh by (simp add: registry_of_def finite_dom_map_of domIff)
  then have cnt1: "client_count (screen ow1) = client_count (screen ow) + 1"
    using card_dom_registry_of [OF wf1] card_dom_registry_of [OF wf0] wf0 wf1
    by (simp add: owen_screen_wf_def) arith
  have room1: "client_count (screen ow1) < int CLIENTS_CAPACITY" using cnt1 room by simp
  let ?xa = "snd (x_get_window_attributes w xs1)"
  have ta: "x_same_tree xs1 ?xa" by (rule x_same_tree_ops)
  have na: "xs_next_id ?xa = Suc ?n" using ta n1 by (simp add: x_same_tree_def)
  have exr: "x_exists ?xa (root ow1)"
    using xs_wf_root_exists [OF xwf1] rt1 x_same_tree_exists [OF ta] by simp
  have exw: "x_exists ?xa w"
    using p1 ex x_same_tree_exists [OF ta] by (simp add: x_exists_parent_of)
  have wn: "w \<noteq> xs_next_id ?xa" using wlt na by simp
  obtain scr2 where add: "owen_clients_add w (xs_next_id ?xa) (screen ow1) = Inr scr2"
      and reg2: "registry_of scr2 = registry_of (screen ow1)" and nwf: "\<not> owen_screen_wf scr2"
      and cnt2: "client_count scr2 = client_count (screen ow1) + 1"
    using owen_clients_add_managed [OF wf1 _ room1] reg1 by fastforce
  let ?s1 = "screen ow1"
  define X2 where "X2 = x_map_window (xs_next_id ?xa) (x_reparent_window w (xs_next_id ?xa) 0 0
      (x_add_to_save_set w (x_select_input (xs_next_id ?xa) (SubstructureRedirectMask OR SubstructureNotifyMask)
        (snd (x_create_simple_window (root ow1) (pt_x (owen_frame_get_start_point ?s1 (client_count ?s1)))
           (pt_y (owen_frame_get_start_point ?s1 (client_count ?s1)))
           (owen_frame_get_width ?s1) (owen_frame_get_height ?s1) BORDER_WIDTH BORDER_COLOR BG_COLOR ?xa)))))"
  have fc: "owen_frame_create w ow1 ?xa = Inr (ow1\<lparr>screen := scr2\<rparr>, X2)"
    using owen_frame_create_Inr [OF wf1 room1, where w=w and xs="?xa"] add
          owen_clients_add_Inr [OF wf1 room1] unfolding X2_def by simp
  have "x_parent_of X2 = ((x_parent_of ?xa)(xs_next_id ?xa \<mapsto> root ow1))(w \<mapsto> xs_next_id ?xa)"
    unfolding X2_def using frame_sequence_tree(1) [OF exr refl wn x_same_tree_ops(1)] exw by simp
  then have px: "x_parent_of X2 w = Some (xs_next_id ?xa)" by simp
  have "owen_run [MapRequest w, MapRequest w] ow xs = Inr (ow1\<lparr>screen := scr2\<rparr>, x_map_window w X2)"
    using h1 fc by (simp add: x_on_map_request_frame_create)
  moreover have "\<not> owen_inv (ow1\<lparr>screen := scr2\<rparr>) (x_map_window w X2)"
    using nwf by (simp add: owen_inv_def)
  ultimately show ?thesis
    using reg2 reg1 cnt2 cnt1 px na by auto
qed

text \<open>C27: Mapping an unmanaged top-level window and then receiving its UnmapNotify from the new frame is a round trip: the registry and the whole window tree are as before, and only the frame id has been consumed.\<close>

theorem owen_map_unmap_roundtrip:
  assumes inv: "owen_inv ow xs" and ok: "map_request_ok ow xs w"
    and room: "client_count (screen ow) < int CLIENTS_CAPACITY"
    and top: "x_parent_of xs w = Some (root ow)"
    and u: "ue_window u = w" "ue_event u = xs_next_id xs"
  shows "\<exists>ow1 xs1 ow2 xs2. owen_handle_event (MapRequest w) ow xs = Inr (ow1, xs1) \<and>
     owen_handle_event (UnmapNotify u) ow1 xs1 = Inr (ow2, xs2) \<and>
     registry_of (screen ow2) = registry_of (screen ow) \<and> x_parent_of xs2 = x_parent_of xs \<and>
     xs_next_id xs2 = Suc (xs_next_id xs)"
proof -
  let ?n = "xs_next_id xs" and ?m = "registry_of (screen ow)"
  have rt: "root ow = xs_root xs" and xwf: "xs_wf xs" using inv by (simp_all add: owen_inv_def reg_tree_inv_def)
  have wex: "x_exists xs w" using top by (simp add: x_exists_parent_of)
  obtain ow1 xs1 where m1: "owen_handle_event (MapRequest w) ow xs = Inr (ow1, xs1)"
    "registry_of (screen ow1) = ?m(w \<mapsto> ?n)"
    "x_parent_of xs1 = ((x_parent_of xs)(?n \<mapsto> root ow))(w \<mapsto> ?n)"
    "root ow1 = root ow" "xs_next_id xs1 = Suc ?n" "owen_inv ow1 xs1"
    using owen_map_request_effect [OF inv ok room] wex by metis
  have rt1: "root ow1 = xs_root xs1" and xwf1: "xs_wf xs1" using m1(6) by (simp_all add: owen_inv_def reg_tree_inv_def)
  have reg1: "registry_of (screen ow1) w = Some ?n" using m1(2) by simp
  have wn: "w \<noteq> ?n" using ok by (simp add: map_request_ok_def reg_fresh_def)
  have nr: "ue_event u \<noteq> root ow1" using u(2) m1(4) rt xs_wf_root_exists [OF xwf] xwf
    by (auto simp: xs_wf_def)
  have f1: "x_parent_of xs1 ?n = Some (xs_root xs1)" "?n \<noteq> xs_root xs1"
    using owen_inv_frames_fresh [OF m1(6) reg1] by simp_all
  note srv = owen_unframe_server [OF xwf1 f1 wn]
  have wf1: "owen_screen_wf (screen ow1)" using m1(6) by (simp add: owen_inv_def reg_tree_inv_def)
  have "owen_handle_event (UnmapNotify u) ow1 xs1 =
          Inr (ow1\<lparr>screen := owen_clients_delete w (screen ow1)\<rparr>,
               x_destroy_window ?n (x_remove_from_save_set w
                 (x_reparent_window w (root ow1) 0 0 (x_unmap_window ?n xs1))))"
    using x_on_unmap_notify_unframe [OF m1(6) reg1 u(1) nr] by simp
  moreover have "registry_of (owen_clients_delete w (screen ow1)) = ?m"
    using owen_clients_delete_registry(1) [OF wf1, of w] m1(2) ok
    by (simp add: map_request_ok_def reg_fresh_def fun_upd_idem)
  moreover have "x_parent_of (x_destroy_window ?n (x_remove_from_save_set w
                   (x_reparent_window w (root ow1) 0 0 (x_unmap_window ?n xs1)))) = x_parent_of xs"
  proof
    fix v
    have nnex: "x_parent_of xs ?n = None"
      using xwf by (auto simp: xs_wf_def x_exists_parent_of)
    have notn: "x_parent_of xs v \<noteq> Some ?n"
      using xwf unfolding xs_wf_def by blast
    have "x_exists xs1 w" using m1(3) by (simp add: x_exists_parent_of)
    then show "x_parent_of (x_destroy_window ?n (x_remove_from_save_set w
                   (x_reparent_window w (root ow1) 0 0 (x_unmap_window ?n xs1)))) v = x_parent_of xs v"
      using srv(1) [of v] rt1 m1(3,4) rt top nnex notn wn by (auto simp: x_same_tree_def)
  qed
  moreover have "xs_next_id (x_destroy_window ?n (x_remove_from_save_set w
                   (x_reparent_window w (root ow1) 0 0 (x_unmap_window ?n xs1)))) = Suc ?n"
    using srv(3) rt1 m1(5) by simp
  ultimately show ?thesis using m1(1) by auto
qed

text \<open>C28: In every reachable state the C client_count is a valid index bound of the 256-entry array and equals the number of managed clients.\<close>

theorem owen_reachable_count_type:
  assumes "owen_reachable ow xs"
  shows "0 \<le> client_count (screen ow) \<and> client_count (screen ow) \<le> int CLIENTS_CAPACITY \<and>
         length (clients (screen ow)) = CLIENTS_CAPACITY \<and>
         int (card (dom (registry_of (screen ow)))) = client_count (screen ow)"
proof -
  have wf: "owen_screen_wf (screen ow)" using owen_reachable_inv [OF assms] by (simp add: owen_inv_def reg_tree_inv_def)
  then show ?thesis
    using card_dom_registry_of [OF wf] by (auto simp: owen_screen_wf_def)
qed



theorem owen_map_unmap_roundtrip_witness:
  "\<exists>ow xs. owen_main (Some demo_server) [] = Inr (ow, xs) \<and>
     (\<exists>ow1 xs1 ow2 xs2. owen_handle_event (MapRequest 3) ow xs = Inr (ow1, xs1) \<and>
        owen_handle_event (UnmapNotify \<lparr>ue_event = 11, ue_window = 3\<rparr>) ow1 xs1 = Inr (ow2, xs2) \<and>
        registry_of (screen ow2) = [2 \<mapsto> 10] \<and> x_parent_of xs2 = x_parent_of xs \<and> xs_next_id xs2 = 12)"
proof -
  obtain ow xs where run: "owen_main (Some demo_server) [] = Inr (ow, xs)" and inv: "owen_inv ow xs"
    and f: "root ow = 1" "registry_of (screen ow) = [2 \<mapsto> 10]" "client_count (screen ow) = 1"
      "xs_root xs = 1" "xs_next_id xs = 11" "xs_windows xs 3 = Some (demo_win 1 False)"
    by (rule demo_booted)
  have ok: "map_request_ok ow xs 3" using f by (simp add: map_request_ok_def reg_fresh_def)
  have room: "client_count (screen ow) < int CLIENTS_CAPACITY" using f by (simp add: CLIENTS_CAPACITY_def)
  have top: "x_parent_of xs 3 = Some (root ow)" using f by (simp add: x_parent_of_def demo_win_def)
  show ?thesis
    using owen_map_unmap_roundtrip [OF inv ok room top, of "\<lparr>ue_event = 11, ue_window = 3\<rparr>"] run f by auto
qed

theorem owen_reachable_count_type_witness:
  "\<exists>ow xs. owen_main (Some demo_server) [] = Inr (ow, xs) \<and> owen_reachable ow xs \<and>
     0 \<le> client_count (screen ow) \<and> client_count (screen ow) \<le> int CLIENTS_CAPACITY \<and>
     length (clients (screen ow)) = CLIENTS_CAPACITY \<and>
     int (card (dom (registry_of (screen ow)))) = client_count (screen ow) \<and> client_count (screen ow) = 1"
proof -
  obtain ow xs where run: "owen_main (Some demo_server) [] = Inr (ow, xs)"
    and f: "client_count (screen ow) = 1"
    by (rule demo_booted)
  show ?thesis
    using owen_reachable_count_type [OF demo_boot_reachable [OF run]] demo_boot_reachable [OF run] run f
    by blast
qed


subsection \<open>Crash safety\<close>

text \<open>C3: In every reachable state, closing the display connection (\<open>owen_destroy\<close>, or the process dying, which closes it as well) returns every existing managed client to the root, mapped and at the screen position it had inside its frame, destroys every frame, and keeps every other existing window.\<close>

theorem owen_crash_safe:
  assumes reach: "owen_reachable ow xs"
  shows "(\<forall>c f. registry_of (screen ow) c = Some f \<longrightarrow> x_exists xs c \<longrightarrow>
            (\<exists>u0 p u. xs_windows xs c = Some u0 \<and> xs_windows xs f = Some p \<and>
               xs_windows (owen_destroy ow xs) c = Some u \<and> xw_parent u = xs_root xs \<and> xw_mapped u \<and>
               xw_x u = xw_x p + xw_border_width p + xw_x u0 \<and>
               xw_y u = xw_y p + xw_border_width p + xw_y u0)) \<and>
         (\<forall>f \<in> ran (registry_of (screen ow)). \<not> x_exists (owen_destroy ow xs) f) \<and>
         (\<forall>v. x_exists xs v \<and> v \<notin> ran (registry_of (screen ow)) \<longrightarrow> x_exists (owen_destroy ow xs) v)"
proof -
  have "reg_tree_inv (registry_of (screen ow)) xs"
    using owen_reachable_inv [OF reach] by (simp add: owen_inv_def)
  then show ?thesis
    using x_close_display_safe [OF _ owen_reachable_save_set [OF reach]] by (simp add: owen_destroy_def)
qed

theorem owen_crash_safe_witness:
  "\<exists>ow xs. owen_main (Some demo_server) [] = Inr (ow, xs) \<and> owen_reachable ow xs \<and>
     (\<exists>u. xs_windows (owen_destroy ow xs) 2 = Some u \<and> xw_parent u = 1 \<and> xw_mapped u) \<and>
     \<not> x_exists (owen_destroy ow xs) 10 \<and> x_exists (owen_destroy ow xs) 3"
proof -
  obtain ow xs where run: "owen_main (Some demo_server) [] = Inr (ow, xs)"
    and f: "registry_of (screen ow) = [2 \<mapsto> 10]" "xs_root xs = 1"
      "xs_windows xs 3 = Some (demo_win 1 False)" "x_exists xs 2"
    by (rule demo_booted)
  have reach: "owen_reachable ow xs" by (rule demo_boot_reachable [OF run])
  note c = owen_crash_safe [OF reach]
  have "x_exists xs 3" using f(3) by (simp add: x_exists_def)
  then have "x_exists (owen_destroy ow xs) 3" using c f(1) by auto
  moreover have "\<not> x_exists (owen_destroy ow xs) 10" using c f(1) by auto
  moreover have "\<exists>u. xs_windows (owen_destroy ow xs) 2 = Some u \<and> xw_parent u = 1 \<and> xw_mapped u"
    using c f(1,2,4) by fastforce
  ultimately show ?thesis using run reach by blast
qed

end
