(* ===== verification/Owen_Cpp_Claims.thy ===== *)
theory Owen_Cpp_Claims
  imports Owen_Cpp_Inv Owen_C_Claims
begin

text \<open>
  Properties of the C++ implementation (\<open>src/owen.cpp\<close>) and its relation to the C one.
  The two agree on the registry and the window tree for every map, unmap and configure
  request a server delivers, one handler at a time and over whole event queues; they differ in frame placement, in what they do when a
  client vanishes before it is framed, and in the handshake. The drag controller moves
  a frame by the pointer's displacement without overflowing on protocol coordinates;
  motion coalescing is equivalent to handling the last queued motion event and gives
  the same final position as handling every one. Clicks and motion on unmanaged
  windows corrupt the registry through \<open>operator[]\<close>; the events the server does
  deliver keep it a bijection (\<open>Owen_Cpp_Inv\<close>) and are handled without abort, and the
  destructor in any reachable state gives every client back to the root.
\<close>

text \<open>X protocol coordinates are \<open>INT16\<close>: every position and pointer coordinate the
  server reports is in this range.\<close>

definition x_coord_ok :: "int \<Rightarrow> bool" where
  "x_coord_ok v \<longleftrightarrow> - (2 ^ 15) \<le> v \<and> v < 2 ^ 15"

text \<open>Reference for the coalescing loop: the queued motion events of a window, and
  whether an event is one of them.\<close>

fun is_motion_for :: "window \<Rightarrow> XEvent \<Rightarrow> bool" where
  "is_motion_for w (MotionNotify m) = (me_window m = w)"
| "is_motion_for w _ = False"

fun motions_for :: "window \<Rightarrow> XEvent list \<Rightarrow> XMotionEvent list" where
  "motions_for w [] = []"
| "motions_for w (MotionNotify m # q) = (if me_window m = w then m # motions_for w q else motions_for w q)"
| "motions_for w (e # q) = motions_for w q"

text \<open>Reference for the drag: every motion event handled on its own, without coalescing.\<close>

fun cpp_motions_each :: "XMotionEvent list \<Rightarrow> CppWM \<Rightarrow> XServer \<Rightarrow> wm_error + cpp_state" where
  "cpp_motions_each [] cw xs = Inr (cw, xs)"
| "cpp_motions_each (m # ms) cw xs =
     (case cpp_on_motion_notify m cw xs of
        Inl e \<Rightarrow> Inl e
      | Inr (cw', xs') \<Rightarrow> cpp_motions_each ms cw' xs')"

text \<open>The two implementations' states correspond when they agree on the root and on
  the registry (the C array read through \<open>registry_of\<close>, the C++ map as it is).\<close>

definition owen_cpp_corr :: "Owen \<Rightarrow> CppWM \<Rightarrow> bool" where
  "owen_cpp_corr ow cw \<longleftrightarrow> root ow = cpp_root cw \<and> registry_of (screen ow) = cpp_clients cw"

text \<open>The events both implementations handle: window management, not the drag.\<close>

fun structural_event :: "XEvent \<Rightarrow> bool" where
  "structural_event (MapRequest w) = True"
| "structural_event (UnmapNotify e) = True"
| "structural_event (ConfigureRequest e) = True"
| "structural_event _ = False"

text \<open>The events of a queue are each deliverable in the state the C window manager
  has reached when it reads them.\<close>

fun owen_events_ok :: "XEvent list \<Rightarrow> Owen \<Rightarrow> XServer \<Rightarrow> bool" where
  "owen_events_ok [] ow xs = True"
| "owen_events_ok (e # es) ow xs =
     (owen_event_ok ow xs e \<and>
      (case owen_handle_event e ow xs of Inl _ \<Rightarrow> True | Inr (ow', xs') \<Rightarrow> owen_events_ok es ow' xs'))"

text \<open>A C++ window manager on the demonstration display that manages window 2 with
  window 3 standing in as its frame, before any drag.\<close>

definition demo_cpp :: CppWM where
  "demo_cpp = \<lparr>cpp_root = 1, cpp_clients = [2 \<mapsto> 3],
     drag_start_pos_x = None, drag_start_pos_y = None,
     drag_start_frame_pos_x = None, drag_start_frame_pos_y = None,
     drag_start_frame_height = None, drag_start_frame_width = None, cpp_wm_detected = False\<rparr>"

definition demo_dragging :: CppWM where
  "demo_dragging = demo_cpp\<lparr>drag_start_pos_x := Some 100, drag_start_pos_y := Some 100,
     drag_start_frame_pos_x := Some 0, drag_start_frame_pos_y := Some 0\<rparr>"

definition demo_motion :: "int \<Rightarrow> int \<Rightarrow> XMotionEvent" where
  "demo_motion x y = \<lparr>me_window = 2, me_x_root = x, me_y_root = y, me_state = Button1Mask\<rparr>"

lemma cpp_frame_Inr:
  assumes "xs_windows xs w = Some v"
    and "\<not> (b \<and> (xw_override_redirect v \<or> x_map_state xs v \<noteq> IsViewable))"
  shows "cpp_frame w b cw xs =
    Inr (cw\<lparr>cpp_clients := (cpp_clients cw)(w \<mapsto> xs_next_id xs)\<rparr>,
         x_map_window (xs_next_id xs) (x_reparent_window w (xs_next_id xs) 0 0 (x_add_to_save_set w
           (x_grab_button w (x_select_input (xs_next_id xs)
              (SubstructureRedirectMask OR SubstructureNotifyMask OR ButtonPressMask)
              (snd (x_create_simple_window (cpp_root cw) 50 50 (xw_width v) (xw_height v)
                 BORDER_WIDTH BORDER_COLOR BG_COLOR (x_log (ReqGetAttributes w) xs))))))))"
proof -
  obtain fr xs2 where c: "x_create_simple_window (cpp_root cw) 50 50 (xw_width v) (xw_height v)
                 BORDER_WIDTH BORDER_COLOR BG_COLOR (x_log (ReqGetAttributes w) xs) = (fr, xs2)"
    by (metis surj_pair)
  have "fr = xs_next_id xs"
    using x_create_simple_window_id [of "cpp_root cw" 50 50 "xw_width v" "xw_height v" BORDER_WIDTH
            BORDER_COLOR BG_COLOR "x_log (ReqGetAttributes w) xs"] c by (simp add: x_log_def)
  then show ?thesis
    using assms c by (simp add: cpp_frame_def x_get_window_attributes_def Let_def) blast
qed

text \<open>C22: The C++ OnMapRequest frames an existing window at (50, 50) with the client's own size, not at the layout engine's geometry: it sends attributes, create, select input with button press, grab button, save set, reparent, map frame and map client in that order, and stores the frame in clients_.\<close>

theorem cpp_map_request_frames:
  assumes "xs_windows xs w = Some v"
  shows "\<exists>cw' xs'. cpp_handle_event (MapRequest w) cw xs = Inr (cw', xs') \<and>
     cpp_clients cw' = (cpp_clients cw)(w \<mapsto> xs_next_id xs) \<and>
     xs_requests xs' = xs_requests xs @
       [ReqGetAttributes w,
        ReqCreateWindow (xs_next_id xs) (cpp_root cw) 50 50 (xw_width v) (xw_height v)
          BORDER_WIDTH BORDER_COLOR BG_COLOR,
        ReqSelectInput (xs_next_id xs) (SubstructureRedirectMask OR SubstructureNotifyMask OR ButtonPressMask),
        ReqGrabButton w, ReqAddToSaveSet w, ReqReparent w (xs_next_id xs) 0 0,
        ReqMap (xs_next_id xs), ReqMap w]"
  using cpp_frame_Inr [OF assms, of False cw]
  by (simp add: cpp_on_map_request_def xserver_simps x_log_def)

text \<open>C23: A button press on a window that is not a client (the root, which selects ButtonPressMask, or a frame) makes clients_[w] insert the frame 0, whose XGetGeometry fails, so OnButtonPress reads uninitialised coordinates.\<close>

theorem cpp_button_press_unmanaged:
  assumes "xs_wf xs" "cpp_clients cw (be_window e) = None"
  shows "cpp_index (be_window e) cw = (0, cw\<lparr>cpp_clients := (cpp_clients cw)(be_window e \<mapsto> 0)\<rparr>) \<and>
         fst (x_get_geometry 0 xs) = None \<and>
         cpp_handle_event (ButtonPress e) cw xs = Inl UninitialisedRead"
proof -
  have "\<not> x_exists xs 0" using assms(1) by (simp add: xs_wf_def)
  then show ?thesis
    using assms(2) by (simp add: cpp_on_button_press_def x_get_geometry_def x_exists_def Let_def
                          split: option.splits)
qed

lemma x_coord_int32:
  "x_coord_ok a \<Longrightarrow> x_coord_ok b \<Longrightarrow> x_coord_ok c \<Longrightarrow>
   int32_ok (a - b) \<and> int32_ok (c + (a - b))"
  by (simp add: x_coord_ok_def int32_ok_def)

lemma cpp_int_ops_ok:
  "int32_ok (a - b) \<Longrightarrow> cpp_int_sub a b = Inr (a - b)"
  "int32_ok (a + b) \<Longrightarrow> cpp_int_add a b = Inr (a + b)"
  by (simp_all add: cpp_int_sub_def cpp_int_add_def)

lemma cpp_motion_registered:
  assumes "cpp_clients cw (me_window m) = Some f"
    and "drag_start_pos_x cw = Some sx" "drag_start_pos_y cw = Some sy"
    and "drag_start_frame_pos_x cw = Some fx" "drag_start_frame_pos_y cw = Some fy"
    and "x_coord_ok (me_x_root m)" "x_coord_ok (me_y_root m)" "x_coord_ok sx" "x_coord_ok sy"
    and "x_coord_ok fx" "x_coord_ok fy"
  shows "cpp_on_motion_notify m cw xs =
           Inr (cw, if me_state m AND Button1Mask \<noteq> 0
                    then x_move_window f (fx + (me_x_root m - sx)) (fy + (me_y_root m - sy)) xs else xs)"
  using assms x_coord_int32 [of "me_x_root m" sx fx] x_coord_int32 [of "me_y_root m" sy fy]
  by (simp add: cpp_on_motion_notify_def cpp_int_ops_ok)

lemma cpp_press_motion:
  assumes reg: "cpp_clients cw w = Some f" and fr: "xs_windows xs f = Some v"
    and ev: "be_window b = w" "me_window m = w"
    and rng: "x_coord_ok (be_x_root b)" "x_coord_ok (be_y_root b)" "x_coord_ok (me_x_root m)"
      "x_coord_ok (me_y_root m)" "x_coord_ok (xw_x v)" "x_coord_ok (xw_y v)"
  obtains cw1 xs1 where "cpp_handle_event (ButtonPress b) cw xs = Inr (cw1, xs1)"
    "cpp_clients cw1 = cpp_clients cw" "cpp_root cw1 = cpp_root cw"
    "xs_windows xs1 f = Some v" "x_same_tree xs xs1"
    "cpp_handle_event (MotionNotify m) cw1 xs1 =
       Inr (cw1, if me_state m AND Button1Mask \<noteq> 0
                 then x_move_window f (xw_x v + (me_x_root m - be_x_root b))
                        (xw_y v + (me_y_root m - be_y_root b)) xs1
                 else xs1)"
proof -
  let ?cw1 = "cw\<lparr>drag_start_pos_x := Some (be_x_root b), drag_start_pos_y := Some (be_y_root b),
                 drag_start_frame_pos_x := Some (xw_x v), drag_start_frame_pos_y := Some (xw_y v),
                 drag_start_frame_height := Some (xw_height v), drag_start_frame_width := Some (xw_width v)\<rparr>"
  let ?xs1 = "x_raise_window f (x_log (ReqGetGeometry f) xs)"
  have press: "cpp_handle_event (ButtonPress b) cw xs = Inr (?cw1, ?xs1)"
    using reg fr ev by (simp add: cpp_on_button_press_def x_get_geometry_def Let_def)
  have w1: "xs_windows ?xs1 f = Some v"
    using fr by (simp add: x_raise_window_def x_log_def x_exists_def Let_def)
  have "x_same_tree xs (x_log (ReqGetGeometry f) xs)"
    by (simp add: x_same_tree_def x_log_def x_parent_of_def fun_eq_iff)
  then have t1: "x_same_tree xs ?xs1"
    using x_same_tree_ops(9) x_same_tree_trans by blast
  have mv: "cpp_handle_event (MotionNotify m) ?cw1 ?xs1 =
     Inr (?cw1, if me_state m AND Button1Mask \<noteq> 0
                then x_move_window f (xw_x v + (me_x_root m - be_x_root b)) (xw_y v + (me_y_root m - be_y_root b)) ?xs1
                else ?xs1)"
    using cpp_motion_registered [of ?cw1 m f] reg ev rng by simp
  show ?thesis
    using that press w1 t1 mv by simp
qed

text \<open>C17: A press on a client followed by a motion with button 1 held moves the client's frame by the pointer displacement and leaves the registry unchanged, for protocol-range coordinates.\<close>

theorem cpp_drag_moves_frame:
  assumes reg: "cpp_clients cw w = Some f" and fr: "xs_windows xs f = Some v"
    and ev: "be_window b = w" "me_window m = w" "me_state m AND Button1Mask \<noteq> 0"
    and rng: "x_coord_ok (be_x_root b)" "x_coord_ok (be_y_root b)" "x_coord_ok (me_x_root m)"
      "x_coord_ok (me_y_root m)" "x_coord_ok (xw_x v)" "x_coord_ok (xw_y v)"
  shows "\<exists>cw1 xs1 cw2 xs2. cpp_handle_event (ButtonPress b) cw xs = Inr (cw1, xs1) \<and>
     cpp_handle_event (MotionNotify m) cw1 xs1 = Inr (cw2, xs2) \<and> cpp_clients cw2 = cpp_clients cw \<and>
     xs_windows xs2 f = Some (v\<lparr>xw_x := xw_x v + (me_x_root m - be_x_root b),
                                xw_y := xw_y v + (me_y_root m - be_y_root b)\<rparr>)"
proof -
  obtain cw1 xs1 where press: "cpp_handle_event (ButtonPress b) cw xs = Inr (cw1, xs1)"
      and c1: "cpp_clients cw1 = cpp_clients cw" and w1: "xs_windows xs1 f = Some v"
      and mv: "cpp_handle_event (MotionNotify m) cw1 xs1 =
        Inr (cw1, if me_state m AND Button1Mask \<noteq> 0
                  then x_move_window f (xw_x v + (me_x_root m - be_x_root b))
                         (xw_y v + (me_y_root m - be_y_root b)) xs1
                  else xs1)"
    by (rule cpp_press_motion [OF reg fr ev(1,2) rng]) blast
  show ?thesis
    using press mv w1 c1 ev(3) by (simp add: x_move_window_def x_update_win_def x_log_def)
qed

text \<open>C26: Once a drag has started, OnMotionNotify never overflows a 32-bit int when all coordinates are in the X protocol's 16-bit range.\<close>

theorem cpp_motion_no_overflow:
  assumes "drag_start_pos_x cw = Some sx" "drag_start_pos_y cw = Some sy"
    and "drag_start_frame_pos_x cw = Some fx" "drag_start_frame_pos_y cw = Some fy"
    and "x_coord_ok (me_x_root m)" "x_coord_ok (me_y_root m)" "x_coord_ok sx" "x_coord_ok sy"
    and "x_coord_ok fx" "x_coord_ok fy"
  shows "\<exists>cw' xs'. cpp_handle_event (MotionNotify m) cw xs = Inr (cw', xs')"
  using assms x_coord_int32 [of "me_x_root m" sx fx] x_coord_int32 [of "me_y_root m" sy fy]
  by (simp add: cpp_on_motion_notify_def cpp_index_def cpp_int_ops_ok split: option.splits)

text \<open>C24: A motion event on an unmanaged window inserts it into clients_ with frame 0; a later UnmapNotify for it then unframes it: it unmaps and destroys window 0 and reparents the unmanaged window to the root.\<close>

theorem cpp_motion_phantom_client:
  assumes new: "cpp_clients cw w = None" and ev: "me_window m = w" "me_state m AND Button1Mask = 0"
    and drag: "drag_start_pos_x cw = Some sx" "drag_start_pos_y cw = Some sy"
      "int32_ok (me_x_root m - sx)" "int32_ok (me_y_root m - sy)"
    and un: "ue_window u = w" "ue_event u \<noteq> cpp_root cw"
  shows "\<exists>cw1 cw2 xs2. cpp_handle_event (MotionNotify m) cw xs = Inr (cw1, xs) \<and>
     cpp_clients cw1 = (cpp_clients cw)(w \<mapsto> 0) \<and>
     cpp_handle_event (UnmapNotify u) cw1 xs = Inr (cw2, xs2) \<and> cpp_clients cw2 = cpp_clients cw \<and>
     xs_requests xs2 = xs_requests xs @
       [ReqUnmap 0, ReqReparent w (cpp_root cw) 0 0, ReqRemoveFromSaveSet w, ReqDestroy 0]"
  using assms
  by (simp add: cpp_on_motion_notify_def cpp_int_ops_ok cpp_on_unmap_notify_def cpp_unframe_def
                xserver_simps fun_upd_idem)

lemma fold_cpp_on_wm_detected_Inl:
  "fold (\<lambda>e s. cpp_on_wm_detected s e) es (Inl err) = Inl err"
  by (induction es) (simp_all add: cpp_on_wm_detected_def)

text \<open>C25: A protocol error other than BadAccess reported during the startup handshake aborts the C++ window manager through CHECK_EQ in OnWMDetected, while the C window manager ignores it and starts.\<close>

theorem cpp_handshake_check_aborts:
  assumes wf: "xs_wf xs" and solo: "\<not> xs_other_wm xs" and root: "cpp_root cw = xs_root xs"
    and pend: "xs_pending_errors xs = e # es" "error_code e \<noteq> BadAccess"
    and noacc: "BadAccess \<notin> error_code ` set es"
  shows "cpp_run_init cw xs = Inl CheckFailed \<and> (\<exists>s. owen_init (Some xs) = Inr s)"
proof -
  have rt: "x_exists xs (xs_root xs)" by (rule xs_wf_root_exists [OF wf])
  have "cpp_run_init cw xs = Inl CheckFailed"
    using rt root solo pend fold_cpp_on_wm_detected_Inl [of es CheckFailed]
    by (auto simp: cpp_run_init_def x_select_input_def x_sync_def x_update_win_def x_log_def
                   x_exists_def cpp_on_wm_detected_def Let_def)
  moreover have "\<exists>s. owen_init (Some xs) = Inr s"
    using rt solo pend noacc fold_on_vm_detected_flag
    by (auto simp: owen_init_def x_select_input_def x_sync_def x_update_win_def x_log_def
                   x_exists_def Let_def)
  ultimately show ?thesis by blast
qed

lemma motions_for_check_None:
  "x_check_typed_window_event w q = None \<longleftrightarrow> motions_for w q = []"
  by (induction w q rule: x_check_typed_window_event.induct) (auto split: XEvent.splits)

lemma motions_for_check_Some:
  "x_check_typed_window_event w q = Some (m, q') \<Longrightarrow>
   motions_for w q = m # motions_for w q' \<and> me_window m = w \<and>
   filter (\<lambda>e. \<not> is_motion_for w e) q' = filter (\<lambda>e. \<not> is_motion_for w e) q"
  by (induction w q arbitrary: q' rule: x_check_typed_window_event.induct)
     (auto split: XEvent.splits if_splits)

lemma filter_no_motions:
  "motions_for w q = [] \<Longrightarrow> filter (\<lambda>e. \<not> is_motion_for w e) q = q"
  by (induction w q rule: motions_for.induct) (auto split: if_splits)

lemma cpp_coalesce_motion_eq:
  "cpp_coalesce_motion m q =
     (last (m # motions_for (me_window m) q), filter (\<lambda>e. \<not> is_motion_for (me_window m) e) q)"
proof (induction m q rule: cpp_coalesce_motion.induct)
  case (1 m q)
  show ?case
  proof (cases "x_check_typed_window_event (me_window m) q")
    case None
    then have "motions_for (me_window m) q = []" using motions_for_check_None by blast
    then show ?thesis
      using None filter_no_motions by (simp add: cpp_coalesce_motion.simps [of m q])
  next
    case (Some r)
    obtain m' q' where r: "r = (m', q')" by (cases r)
    note st = motions_for_check_Some [OF Some [unfolded r]]
    have "cpp_coalesce_motion m' q' =
            (last (m' # motions_for (me_window m') q'), filter (\<lambda>e. \<not> is_motion_for (me_window m') e) q')"
      using "1" Some r by blast
    then show ?thesis
      using Some r st by (simp add: cpp_coalesce_motion.simps [of m q])
  qed
qed

text \<open>C18: The event loop handles a motion event as the last motion event queued for the same window, and continues with the queue from which all those motion events were removed, the others kept in order.\<close>

theorem cpp_run_coalesces_motion:
  "cpp_run (MotionNotify m # q) cw xs =
     (case cpp_on_motion_notify (last (m # motions_for (me_window m) q)) cw xs of
        Inl e \<Rightarrow> Inl e
      | Inr (cw', xs') \<Rightarrow> cpp_run (filter (\<lambda>e. \<not> is_motion_for (me_window m) e) q) cw' xs')"
  by (subst cpp_run.simps) (simp add: cpp_coalesce_motion_eq)

lemma x_move_window_twice:
  "xs_windows (x_move_window f a b (x_move_window f c d xs)) = xs_windows (x_move_window f a b xs)"
  by (simp add: x_move_window_def x_update_win_def x_log_def x_error_def split: option.splits)

lemma motions_for_map:
  "\<forall>m \<in> set ms. me_window m = w \<Longrightarrow>
   motions_for w (map MotionNotify ms) = ms \<and> filter (\<lambda>e. \<not> is_motion_for w e) (map MotionNotify ms) = []"
  by (induction ms) auto

lemma cpp_motions_each_moves:
  assumes reg: "cpp_clients cw w = Some f"
    and drag: "drag_start_pos_x cw = Some sx" "drag_start_pos_y cw = Some sy"
      "drag_start_frame_pos_x cw = Some fx" "drag_start_frame_pos_y cw = Some fy"
      "x_coord_ok sx" "x_coord_ok sy" "x_coord_ok fx" "x_coord_ok fy"
    and ms: "\<forall>m \<in> set ms. me_window m = w \<and> me_state m AND Button1Mask \<noteq> 0 \<and>
               x_coord_ok (me_x_root m) \<and> x_coord_ok (me_y_root m)" "ms \<noteq> []"
  shows "\<exists>xs'. cpp_motions_each ms cw xs = Inr (cw, xs') \<and>
           xs_windows xs' = xs_windows (x_move_window f (fx + (me_x_root (last ms) - sx))
                                          (fy + (me_y_root (last ms) - sy)) xs)"
  using ms
proof (induction ms arbitrary: xs)
  case Nil
  then show ?case by simp
next
  case (Cons m ms)
  have step: "cpp_on_motion_notify m cw xs =
      Inr (cw, x_move_window f (fx + (me_x_root m - sx)) (fy + (me_y_root m - sy)) xs)"
    using cpp_motion_registered [of cw m f sx sy fx fy xs] reg drag Cons.prems(1) by simp
  show ?case
  proof (cases "ms = []")
    case True
    then show ?thesis using step by simp
  next
    case False
    obtain xs' where "cpp_motions_each ms cw
        (x_move_window f (fx + (me_x_root m - sx)) (fy + (me_y_root m - sy)) xs) = Inr (cw, xs')"
      and "xs_windows xs' = xs_windows (x_move_window f (fx + (me_x_root (last ms) - sx))
             (fy + (me_y_root (last ms) - sy))
             (x_move_window f (fx + (me_x_root m - sx)) (fy + (me_y_root m - sy)) xs))"
      using Cons.IH [OF _ False] Cons.prems(1) by auto
    then show ?thesis using step False by (simp add: x_move_window_twice)
  qed
qed

text \<open>C19: During a drag, handling a queue of button-1 motion events with coalescing leaves the windows exactly as handling each of them in turn.\<close>

theorem cpp_drag_coalesce_sound:
  assumes reg: "cpp_clients cw w = Some f"
    and drag: "drag_start_pos_x cw = Some sx" "drag_start_pos_y cw = Some sy"
      "drag_start_frame_pos_x cw = Some fx" "drag_start_frame_pos_y cw = Some fy"
      "x_coord_ok sx" "x_coord_ok sy" "x_coord_ok fx" "x_coord_ok fy"
    and ms: "\<forall>m \<in> set ms. me_window m = w \<and> me_state m AND Button1Mask \<noteq> 0 \<and>
               x_coord_ok (me_x_root m) \<and> x_coord_ok (me_y_root m)" "ms \<noteq> []"
  shows "\<exists>xs1 xs2. cpp_run (map MotionNotify ms) cw xs = Inr (cw, xs1) \<and>
           cpp_motions_each ms cw xs = Inr (cw, xs2) \<and> xs_windows xs1 = xs_windows xs2"
proof -
  obtain m ms' where m: "ms = m # ms'" using ms(2) by (cases ms) auto
  have w: "me_window m = w" using ms(1) m by simp
  have co: "cpp_coalesce_motion m (map MotionNotify ms') = (last ms, [])"
    using motions_for_map [of ms' w] ms(1) m w by (simp add: cpp_coalesce_motion_eq)
  have lw: "me_window (last ms) = w" "me_state (last ms) AND Button1Mask \<noteq> 0"
      "x_coord_ok (me_x_root (last ms))" "x_coord_ok (me_y_root (last ms))"
    using ms(1) last_in_set [OF ms(2)] by blast+
  have mot: "cpp_on_motion_notify (last ms) cw xs =
      Inr (cw, x_move_window f (fx + (me_x_root (last ms) - sx)) (fy + (me_y_root (last ms) - sy)) xs)"
    using cpp_motion_registered [of cw "last ms" f sx sy fx fy xs] reg drag lw by simp
  have "cpp_run (MotionNotify m # map MotionNotify ms') cw xs =
          Inr (cw, x_move_window f (fx + (me_x_root (last ms) - sx)) (fy + (me_y_root (last ms) - sy)) xs)"
    by (subst cpp_run.simps) (simp add: co mot cpp_run.simps [of "[]"])
  then have "cpp_run (map MotionNotify ms) cw xs =
          Inr (cw, x_move_window f (fx + (me_x_root (last ms) - sx)) (fy + (me_y_root (last ms) - sy)) xs)"
    using m by simp
  moreover obtain xs2 where "cpp_motions_each ms cw xs = Inr (cw, xs2)"
    and "xs_windows xs2 = xs_windows (x_move_window f (fx + (me_x_root (last ms) - sx))
                                        (fy + (me_y_root (last ms) - sy)) xs)"
    using cpp_motions_each_moves [OF reg drag ms] by blast
  ultimately show ?thesis by auto
qed

lemma x_map_window_present:
  "xs_windows xs w = Some v \<Longrightarrow> xs_windows (x_map_window w xs) w = Some (v\<lparr>xw_mapped := True\<rparr>)"
  by (simp add: x_map_window_def x_update_win_def x_log_def)

lemma x_map_window_missing:
  "xs_windows xs w = None \<Longrightarrow> xs_windows (x_map_window w xs) = xs_windows xs"
  by (simp add: x_map_window_def x_update_win_def x_log_def x_error_def)

text \<open>C20: A MapRequest for a window that no longer exists aborts the C++ window manager through CHECK(XGetWindowAttributes), while the C window manager registers the dead window and leaves an empty mapped frame on the root.\<close>

theorem owen_cpp_vanished_window:
  assumes inv: "owen_inv ow xs" and ok: "map_request_ok ow xs w"
    and room: "client_count (screen ow) < int CLIENTS_CAPACITY" and gone: "xs_windows xs w = None"
  shows "cpp_handle_event (MapRequest w) cw xs = Inl CheckFailed \<and>
    (\<exists>ow' xs'. owen_handle_event (MapRequest w) ow xs = Inr (ow', xs') \<and>
       registry_of (screen ow') w = Some (xs_next_id xs) \<and> xs_windows xs' w = None \<and>
       (\<exists>u. xs_windows xs' (xs_next_id xs) = Some u \<and> xw_mapped u \<and> xw_parent u = root ow))"
proof -
  have wf: "owen_screen_wf (screen ow)" using inv by (simp add: owen_inv_def reg_tree_inv_def)
  have reg: "registry_of ((screen ow)\<lparr>clients := (clients (screen ow))[nat (client_count (screen ow)) :=
                    \<lparr>win = w, frame = xs_next_id xs\<rparr>], client_count := client_count (screen ow) + 1\<rparr>) w =
             Some (xs_next_id xs)"
    using owen_clients_add_registry [OF wf _ room, of w "xs_next_id xs"] owen_clients_add_Inr [OF wf room]
          ok by (auto simp: map_request_ok_def reg_fresh_def)
  let ?xs0 = "snd (x_get_window_attributes w xs)"
  have s0: "x_same_tree xs ?xs0" by (rule x_same_tree_ops)
  have ex0: "x_exists ?xs0 (root ow)"
    using inv x_same_tree_exists [OF s0] xs_wf_root_exists by (simp add: owen_inv_def reg_tree_inv_def)
  have n0: "xs_next_id ?xs0 = xs_next_id xs" using x_same_tree_next [OF s0] .
  have wn: "w \<noteq> xs_next_id ?xs0" using ok n0 by (simp add: map_request_ok_def reg_fresh_def)
  have gone0: "\<not> x_exists ?xs0 w" using gone x_same_tree_exists [OF s0] by (simp add: x_exists_def)
  let ?m = "SubstructureRedirectMask OR SubstructureNotifyMask"
  let ?xs4 = "x_reparent_window w (xs_next_id xs) 0 0 (x_add_to_save_set w (x_select_input (xs_next_id xs) ?m
             (snd (x_create_simple_window (root ow) (pt_x (owen_frame_get_start_point (screen ow) (client_count (screen ow))))
                (pt_y (owen_frame_get_start_point (screen ow) (client_count (screen ow))))
                (owen_frame_get_width (screen ow)) (owen_frame_get_height (screen ow))
                BORDER_WIDTH BORDER_COLOR BG_COLOR ?xs0))))"
  note srv = owen_frame_create_server [OF ex0 refl wn,
    where x = "pt_x (owen_frame_get_start_point (screen ow) (client_count (screen ow)))"
    and y = "pt_y (owen_frame_get_start_point (screen ow) (client_count (screen ow)))"
    and wd = "owen_frame_get_width (screen ow)" and ht = "owen_frame_get_height (screen ow)"
    and bw = BORDER_WIDTH and bc = BORDER_COLOR and bg = BG_COLOR and m = ?m]
  have p5: "x_parent_of (x_map_window (xs_next_id xs) ?xs4) (xs_next_id xs) = Some (root ow)"
    and q5: "x_parent_of (x_map_window (xs_next_id xs) ?xs4) w = None"
    using srv(1) gone0 wn n0 by (simp_all add: x_exists_parent_of)
  then obtain v where v: "xs_windows ?xs4 (xs_next_id xs) = Some v" "xw_parent v = root ow"
    by (auto simp: x_parent_of_def)
  have w5: "xs_windows (x_map_window (xs_next_id xs) ?xs4) w = None"
    using q5 wn n0 by (simp add: x_parent_of_def x_windows_other)
  have fin: "xs_windows (x_map_window w (x_map_window (xs_next_id xs) ?xs4)) =
             xs_windows (x_map_window (xs_next_id xs) ?xs4)"
    by (rule x_map_window_missing [OF w5])
  have cpp: "cpp_handle_event (MapRequest w) cw xs = Inl CheckFailed"
    using gone by (simp add: cpp_on_map_request_def cpp_frame_def x_get_window_attributes_def Let_def)
  show ?thesis
    using cpp owen_map_request_Inr [OF inv room, of w] reg fin w5 x_map_window_present [OF v(1)] v(2)
    by simp
qed

text \<open>The simulation step: the C and the C++ handler run on two servers with the same
  window tree (they differ in the geometry of frames and in the request log) from
  corresponding states.\<close>

lemma owen_cpp_map_request_sim:
  assumes inv: "owen_inv ow xs1" and corr: "owen_cpp_corr ow cw" and tr: "x_same_tree xs1 xs2"
    and ok: "map_request_ok ow xs1 w"
    and c: "owen_handle_event (MapRequest w) ow xs1 = Inr (ow', xs1')"
    and p: "cpp_handle_event (MapRequest w) cw xs2 = Inr (cw', xs2')"
  shows "owen_cpp_corr ow' cw' \<and> x_same_tree xs1' xs2'"
proof -
  have wf: "owen_screen_wf (screen ow)" and rt: "root ow = xs_root xs1" and xwf: "xs_wf xs1"
    using inv by (simp_all add: owen_inv_def reg_tree_inv_def)
  let ?xs0 = "snd (x_get_window_attributes w xs1)"
  have s0: "x_same_tree xs1 ?xs0" by (rule x_same_tree_ops)
  have inv0: "owen_inv ow ?xs0" and ok0: "map_request_ok ow ?xs0 w"
    using owen_inv_same_tree [OF inv s0] map_request_ok_same_tree [OF ok s0] .
  obtain xs3 where fc: "owen_frame_create w ow ?xs0 = Inr (ow', xs3)" and xs1': "xs1' = x_map_window w xs3"
    using c by (auto simp: x_on_map_request_frame_create split: sum.splits)
  have room: "client_count (screen ow) < int CLIENTS_CAPACITY"
    using owen_frame_create_room [OF wf fc] .
  obtain ow1 xs3' where eff: "owen_frame_create w ow ?xs0 = Inr (ow1, xs3')"
      "registry_of (screen ow1) = (registry_of (screen ow))(w \<mapsto> xs_next_id ?xs0)"
      "owen_screen_wf (screen ow1)" "root ow1 = root ow"
      "x_parent_of xs3' = (if x_exists ?xs0 w
                        then ((x_parent_of ?xs0)(xs_next_id ?xs0 \<mapsto> root ow))(w \<mapsto> xs_next_id ?xs0)
                        else (x_parent_of ?xs0)(xs_next_id ?xs0 \<mapsto> root ow))"
      "xs_root xs3' = xs_root ?xs0" "xs_next_id xs3' = Suc (xs_next_id ?xs0)"
    by (rule owen_frame_create_effect [OF inv0 ok0 room])
  have eq1: "ow1 = ow'" "xs3' = xs3" using eff(1) fc by simp_all
  obtain xs4 where pf: "cpp_frame w False cw xs2 = Inr (cw', xs4)" and xs2': "xs2' = x_map_window w xs4"
    using p by (auto simp: cpp_on_map_request_def split: sum.splits)
  have ex2: "x_exists xs2 (cpp_root cw)"
    using corr rt xs_wf_root_exists [OF xwf] x_same_tree_exists [OF tr, of "cpp_root cw"]
    by (simp add: owen_cpp_corr_def)
  have wn2: "w \<noteq> xs_next_id xs2"
    using ok tr by (simp add: map_request_ok_def reg_fresh_def x_same_tree_def)
  have eff2: "cw' = cw\<lparr>cpp_clients := (cpp_clients cw)(w \<mapsto> xs_next_id xs2)\<rparr>"
      "x_parent_of xs4 = (if x_exists xs2 w
             then ((x_parent_of xs2)(xs_next_id xs2 \<mapsto> cpp_root cw))(w \<mapsto> xs_next_id xs2)
             else (x_parent_of xs2)(xs_next_id xs2 \<mapsto> cpp_root cw))"
      "xs_root xs4 = xs_root xs2" "xs_next_id xs4 = Suc (xs_next_id xs2)"
    using cpp_frame_effect [OF ex2 wn2 pf] by simp_all
  have t: "x_parent_of ?xs0 = x_parent_of xs2" "xs_next_id ?xs0 = xs_next_id xs2"
      "xs_root ?xs0 = xs_root xs2" "x_exists ?xs0 w = x_exists xs2 w"
    using s0 tr by (simp_all add: x_same_tree_def x_exists_parent_of)
  show ?thesis
    using eff(2,4,5,6,7) eq1 eff2 t corr xs1' xs2'
    by (simp add: owen_cpp_corr_def x_same_tree_def)
qed

lemma owen_cpp_unmap_sim:
  assumes inv: "owen_inv ow xs1" and corr: "owen_cpp_corr ow cw" and tr: "x_same_tree xs1 xs2"
    and c: "owen_handle_event (UnmapNotify u) ow xs1 = Inr (ow', xs1')"
  shows "owen_cpp_corr ow' (fst (cpp_on_unmap_notify u cw xs2)) \<and>
         x_same_tree xs1' (snd (cpp_on_unmap_notify u cw xs2))"
proof (cases "registry_of (screen ow) (ue_window u) = None \<or> ue_event u = root ow")
  case True
  then show ?thesis
    using c corr tr x_on_unmap_notify_ignored [OF inv True]
    by (auto simp: cpp_on_unmap_notify_def owen_cpp_corr_def)
next
  case False
  then obtain f where reg: "registry_of (screen ow) (ue_window u) = Some f" and ev: "ue_event u \<noteq> root ow"
    by auto
  have wf: "owen_screen_wf (screen ow)" and rt: "root ow = xs_root xs1" and xwf: "xs_wf xs1"
    and rinv: "reg_tree_inv (registry_of (screen ow)) xs1"
    using inv by (simp_all add: owen_inv_def reg_tree_inv_def)
  have fw: "f \<noteq> xs_root xs1" "x_parent_of xs1 f = Some (xs_root xs1)" "ue_window u \<noteq> f"
    using reg_tree_inv_frames_fresh [OF rinv reg] rinv reg by (auto simp: reg_tree_inv_def ran_def)
  have t: "x_parent_of xs2 = x_parent_of xs1" "xs_root xs2 = xs_root xs1" "xs_next_id xs2 = xs_next_id xs1"
      "x_exists xs2 = x_exists xs1" "xs_wf xs2"
    using tr xwf x_same_tree_wf [OF tr] by (simp_all add: x_same_tree_def fun_eq_iff x_exists_parent_of)
  note s1 = owen_unframe_server [OF xwf fw(2,1,3)]
  note s2 = owen_unframe_server [OF t(5), of f "ue_window u", unfolded t(1,2,3,4), OF fw(2,1,3)]
  have "x_parent_of xs1' = x_parent_of (snd (cpp_on_unmap_notify u cw xs2))"
    using s1(1) s2(1) x_on_unmap_notify_unframe [OF inv reg refl ev] c reg ev corr rt
    by (auto simp: cpp_on_unmap_notify_def cpp_unframe_def owen_cpp_corr_def fun_eq_iff)
  then show ?thesis
    using c corr reg ev x_on_unmap_notify_unframe [OF inv reg refl ev] s1(2,3) s2(2,3)
          owen_clients_delete_registry(1) [OF wf, of "ue_window u"] rt
    by (auto simp: cpp_on_unmap_notify_def cpp_unframe_def owen_cpp_corr_def x_same_tree_def)
qed


lemma owen_cpp_configure_sim:
  "x_same_tree xs1 xs2 \<Longrightarrow>
   fst (x_on_configure_request e ow xs1) = ow \<and> fst (cpp_on_configure_request e cw xs2) = cw \<and>
   x_same_tree (snd (x_on_configure_request e ow xs1)) (snd (cpp_on_configure_request e cw xs2))"
  using x_on_configure_request_tree [of e ow xs1] cpp_on_configure_request_env [of e cw xs2]
  by (simp add: x_same_env_def x_same_tree_def)

lemma owen_cpp_step_sim:
  assumes inv: "owen_inv ow xs1" and corr: "owen_cpp_corr ow cw" and tr: "x_same_tree xs1 xs2"
    and ev: "structural_event e" "owen_event_ok ow xs1 e"
    and c: "owen_handle_event e ow xs1 = Inr (ow', xs1')"
    and p: "cpp_handle_event e cw xs2 = Inr (cw', xs2')"
  shows "owen_cpp_corr ow' cw' \<and> x_same_tree xs1' xs2'"
proof (cases e)
  case (MapRequest w)
  then show ?thesis
    using owen_cpp_map_request_sim [OF inv corr tr _ c [unfolded MapRequest] p [unfolded MapRequest]] ev(2)
    by (simp add: owen_event_ok_def)
next
  case (UnmapNotify u)
  then show ?thesis
    using owen_cpp_unmap_sim [OF inv corr tr c [unfolded UnmapNotify]] p by simp
next
  case (ConfigureRequest r)
  then show ?thesis
    using owen_cpp_configure_sim [OF tr, of r ow cw] c p corr by auto
qed (use ev(1) in simp_all)

lemma cpp_run_not_motion:
  "(\<forall>m. e \<noteq> MotionNotify m) \<Longrightarrow>
   cpp_run (e # es) cw xs =
     (case cpp_handle_event e cw xs of Inl err \<Rightarrow> Inl err | Inr (cw', xs') \<Rightarrow> cpp_run es cw' xs')"
  using cpp_run.simps [of "e # es" cw xs] by (cases e) simp_all

lemma cpp_run_last_motion:
  "x_check_typed_window_event (me_window m) q = None \<Longrightarrow>
   cpp_run (MotionNotify m # q) cw xs =
     (case cpp_handle_event (MotionNotify m) cw xs of
        Inl err \<Rightarrow> Inl err | Inr (cw', xs') \<Rightarrow> cpp_run q cw' xs')"
  using cpp_run.simps [of "MotionNotify m # q" cw xs] cpp_coalesce_motion.simps [of m q] by simp

text \<open>C11: From corresponding states (same root, same registry) and a state of the C invariant, a MapRequest, UnmapNotify or ConfigureRequest the server can deliver leaves the C and the C++ window managers in corresponding states with the same window tree, whenever both handle it.\<close>

theorem owen_cpp_handlers_agree:
  assumes inv: "owen_inv ow xs" and corr: "owen_cpp_corr ow cw"
    and ev: "structural_event e" "owen_event_ok ow xs e"
    and c: "owen_handle_event e ow xs = Inr (ow', xs1)"
    and p: "cpp_handle_event e cw xs = Inr (cw', xs2)"
  shows "owen_cpp_corr ow' cw' \<and> x_parent_of xs1 = x_parent_of xs2"
  using owen_cpp_step_sim [OF inv corr x_same_tree_refl ev c p] by (simp add: x_same_tree_def)

text \<open>C12: The two event loops simulate each other on whole queues: from corresponding states on servers with the same window tree, a queue of map, unmap and configure requests each deliverable when it is read leaves owen_run and the C++ Run loop in corresponding states (same root, same client-to-frame registry) on servers with the same window tree, whenever both handle it.\<close>

theorem owen_cpp_runs_agree:
  assumes "owen_inv ow xs1" "owen_cpp_corr ow cw" "x_same_tree xs1 xs2"
    and "\<forall>e \<in> set es. structural_event e" "owen_events_ok es ow xs1"
    and "owen_run es ow xs1 = Inr (ow', xs1')" "cpp_run es cw xs2 = Inr (cw', xs2')"
  shows "owen_cpp_corr ow' cw' \<and> x_same_tree xs1' xs2'"
  using assms
proof (induction es arbitrary: ow cw xs1 xs2)
  case Nil
  then show ?case by (simp add: cpp_run.simps [of "[]"])
next
  case (Cons e es)
  obtain ow1 xs3 where c: "owen_handle_event e ow xs1 = Inr (ow1, xs3)"
      and cr: "owen_run es ow1 xs3 = Inr (ow', xs1')"
    using Cons.prems(6) by (auto split: sum.splits)
  have st: "structural_event e" using Cons.prems(4) by simp
  have nm: "\<forall>m. e \<noteq> MotionNotify m" using st by auto
  obtain cw1 xs4 where p: "cpp_handle_event e cw xs2 = Inr (cw1, xs4)"
      and pr: "cpp_run es cw1 xs4 = Inr (cw', xs2')"
    using Cons.prems(7) cpp_run_not_motion [OF nm] by (auto split: sum.splits)
  have ok: "owen_event_ok ow xs1 e" "owen_events_ok es ow1 xs3"
    using Cons.prems(5) c by simp_all
  note sim = owen_cpp_step_sim [OF Cons.prems(1,2,3) st ok(1) c p]
  show ?case
    using Cons.IH [OF owen_inv_step [OF Cons.prems(1) ok(1) c] _ _ _ ok(2) cr pr] sim Cons.prems(4)
    by simp
qed


subsection \<open>A repeated \<open>MapRequest\<close>\<close>

text \<open>\<open>Frame\<close> on an existing window that is not a frame: the new frame becomes a mapped
  child of the root holding the window, and no other window changes.\<close>

lemma cpp_frame_new_effect:
  assumes win: "xs_windows xs w = Some v" and ex: "x_exists xs (cpp_root cw)" and wn: "w \<noteq> xs_next_id xs"
  obtains xs' where "cpp_frame w False cw xs = Inr (cw\<lparr>cpp_clients := (cpp_clients cw)(w \<mapsto> xs_next_id xs)\<rparr>, xs')"
    "x_parent_of xs' = ((x_parent_of xs)(xs_next_id xs \<mapsto> cpp_root cw))(w \<mapsto> xs_next_id xs)"
    "xs_root xs' = xs_root xs" "xs_next_id xs' = Suc (xs_next_id xs)"
    "\<exists>u. xs_windows xs' (xs_next_id xs) = Some u \<and> xw_mapped u"
    "\<And>u. u \<noteq> w \<Longrightarrow> u \<noteq> xs_next_id xs \<Longrightarrow> xs_windows xs' u = xs_windows xs u"
proof -
  let ?n = "xs_next_id xs"
  define xs0 where "xs0 = x_log (ReqGetAttributes w) xs"
  define C where "C = snd (x_create_simple_window (cpp_root cw) 50 50 (xw_width v) (xw_height v)
                   BORDER_WIDTH BORDER_COLOR BG_COLOR xs0)"
  define Y where "Y = x_reparent_window w ?n 0 0 (x_add_to_save_set w (x_grab_button w
                   (x_select_input ?n (SubstructureRedirectMask OR SubstructureNotifyMask OR ButtonPressMask) C)))"
  have fr: "cpp_frame w False cw xs = Inr (cw\<lparr>cpp_clients := (cpp_clients cw)(w \<mapsto> ?n)\<rparr>, x_map_window ?n Y)"
    using cpp_frame_Inr [OF win, of False cw] unfolding Y_def C_def xs0_def by simp
  have t0: "x_same_tree xs xs0" and n0: "?n = xs_next_id xs0" and w0: "x_exists xs0 w"
    using win by (simp_all add: xs0_def x_log_def x_same_tree_def x_parent_of_def x_exists_def fun_eq_iff)
  have mid: "x_same_tree C (x_grab_button w (x_select_input ?n
               (SubstructureRedirectMask OR SubstructureNotifyMask OR ButtonPressMask) C))"
    by (rule x_same_tree_trans [OF x_same_tree_ops(1) x_same_tree_ops(2)])
  note ft = frame_sequence_tree [OF ex [unfolded x_same_tree_exists [OF t0, symmetric]] n0 wn
              mid [unfolded C_def]]
  have par: "x_parent_of (x_map_window ?n Y) = ((x_parent_of xs)(?n \<mapsto> cpp_root cw))(w \<mapsto> ?n)"
    using ft(1) w0 x_same_tree_parent [OF t0] n0 unfolding Y_def C_def by simp
  have "x_exists Y ?n"
    using par x_same_tree_parent [OF x_same_tree_ops(5) [of Y ?n]] wn by (simp add: x_exists_parent_of)
  then have mp: "\<exists>u. xs_windows (x_map_window ?n Y) ?n = Some u \<and> xw_mapped u"
    using x_map_window_present by (auto simp: x_exists_def)
  have oth: "xs_windows (x_map_window ?n Y) u = xs_windows xs u" if h: "u \<noteq> w" "u \<noteq> ?n" for u
  proof -
    have "u \<noteq> xs_next_id xs0" using h(2) n0 by simp
    then show ?thesis
      using h unfolding Y_def C_def by (simp add: x_windows_other xs0_def x_log_def)
  qed
  have rn: "xs_root (x_map_window ?n Y) = xs_root xs" "xs_next_id (x_map_window ?n Y) = Suc ?n"
    using ft(2,3) t0 n0 unfolding Y_def C_def by (simp_all add: x_same_tree_def)
  show ?thesis by (rule that [OF fr par rn mp oth])
qed

text \<open>Two \<open>MapRequest\<close>s for one window through \<open>Run\<close>'s loop: \<open>clients_[w]\<close> is
  overwritten with the second frame, and the first stays on the root, mapped and empty,
  unknown to the registry, so no handler ever destroys it.\<close>

lemma cpp_map_request_twice_effect:
  assumes inv: "cpp_inv cw xs" and ok: "reg_fresh (cpp_clients cw) xs w" and win: "xs_windows xs w = Some v"
  shows "\<exists>cw' xs'. cpp_run [MapRequest w, MapRequest w] cw xs = Inr (cw', xs') \<and>
           cpp_clients cw' = (cpp_clients cw)(w \<mapsto> Suc (xs_next_id xs)) \<and>
           xs_next_id xs \<notin> ran (cpp_clients cw') \<and>
           x_parent_of xs' (xs_next_id xs) = Some (xs_root xs) \<and>
           (\<forall>u. x_parent_of xs' u \<noteq> Some (xs_next_id xs)) \<and>
           (\<exists>u. xs_windows xs' (xs_next_id xs) = Some u \<and> xw_mapped u)"
proof -
  let ?n = "xs_next_id xs" and ?r = "xs_root xs"
  have rt: "cpp_root cw = ?r" and rinv: "reg_tree_inv (cpp_clients cw) xs"
    using inv by (simp_all add: cpp_inv_def)
  have xwf: "xs_wf xs" using rinv by (simp add: reg_tree_inv_def)
  have wlt: "w < ?n" using ok by (simp add: reg_fresh_def)
  then have wn: "w \<noteq> ?n" by simp
  have rlt: "?r < ?n" using xwf xs_wf_root_exists by (simp add: xs_wf_def)
  have pl: "p < ?n" if "x_parent_of xs u = Some p" for u p using xwf that by (simp add: xs_wf_def)
  have exr: "x_exists xs (cpp_root cw)" using rt xs_wf_root_exists [OF xwf] by simp
  obtain xs1 where f1: "cpp_frame w False cw xs = Inr (cw\<lparr>cpp_clients := (cpp_clients cw)(w \<mapsto> ?n)\<rparr>, xs1)"
      and p1: "x_parent_of xs1 = ((x_parent_of xs)(?n \<mapsto> cpp_root cw))(w \<mapsto> ?n)"
      and r1: "xs_root xs1 = ?r" and n1: "xs_next_id xs1 = Suc ?n"
      and m1: "\<exists>u. xs_windows xs1 ?n = Some u \<and> xw_mapped u"
      and "\<And>u. u \<noteq> w \<Longrightarrow> u \<noteq> ?n \<Longrightarrow> xs_windows xs1 u = xs_windows xs u"
    by (rule cpp_frame_new_effect [OF win exr wn]) blast
  let ?cw1 = "cw\<lparr>cpp_clients := (cpp_clients cw)(w \<mapsto> ?n)\<rparr>"
  let ?xs1 = "x_map_window w xs1"
  have t1: "x_same_tree xs1 ?xs1" by (rule x_same_tree_ops)
  have "x_exists ?xs1 w" using p1 x_same_tree_parent [OF t1] by (simp add: x_exists_parent_of)
  then obtain v1 where w1: "xs_windows ?xs1 w = Some v1" by (auto simp: x_exists_def)
  have "x_parent_of xs ?r \<noteq> None" using exr rt by (simp add: x_exists_parent_of)
  then have ex1: "x_exists ?xs1 (cpp_root ?cw1)"
    using p1 x_same_tree_parent [OF t1] rt rlt wlt by (simp add: x_exists_parent_of)
  have n1': "xs_next_id ?xs1 = Suc ?n" using t1 n1 by (simp add: x_same_tree_def)
  have wn1: "w \<noteq> xs_next_id ?xs1" using n1' wlt by simp
  obtain xs2 where f2': "cpp_frame w False ?cw1 ?xs1 =
                          Inr (?cw1\<lparr>cpp_clients := (cpp_clients ?cw1)(w \<mapsto> xs_next_id ?xs1)\<rparr>, xs2)"
      and p2': "x_parent_of xs2 = ((x_parent_of ?xs1)(xs_next_id ?xs1 \<mapsto> cpp_root ?cw1))(w \<mapsto> xs_next_id ?xs1)"
      and "xs_root xs2 = xs_root ?xs1" "xs_next_id xs2 = Suc (xs_next_id ?xs1)"
      and "\<exists>u. xs_windows xs2 (xs_next_id ?xs1) = Some u \<and> xw_mapped u"
      and o2: "\<And>u. u \<noteq> w \<Longrightarrow> u \<noteq> xs_next_id ?xs1 \<Longrightarrow> xs_windows xs2 u = xs_windows ?xs1 u"
    by (rule cpp_frame_new_effect [OF w1 ex1 wn1]) blast
  note f2 = f2' [unfolded n1'] and p2 = p2' [unfolded n1']
  let ?cw2 = "?cw1\<lparr>cpp_clients := (cpp_clients ?cw1)(w \<mapsto> Suc ?n)\<rparr>"
  have run: "cpp_run [MapRequest w, MapRequest w] cw xs = Inr (?cw2, x_map_window w xs2)"
    using f1 f2 by (simp add: cpp_run_not_motion cpp_run.simps [of "[]"] cpp_on_map_request_def)
  have pp: "x_parent_of (x_map_window w xs2) =
              ((((x_parent_of xs)(?n \<mapsto> ?r))(w \<mapsto> ?n))(Suc ?n \<mapsto> ?r))(w \<mapsto> Suc ?n)"
    using p2 p1 rt x_same_tree_parent [OF t1] by simp
  have "?n \<notin> ran (cpp_clients cw)"
  proof
    assume "?n \<in> ran (cpp_clients cw)"
    then obtain c where "cpp_clients cw c = Some ?n" by (auto simp: ran_def)
    then have "x_parent_of xs ?n = Some ?r" using rinv unfolding reg_tree_inv_def by blast
    then have "x_exists xs ?n" by (simp add: x_exists_parent_of)
    then show False using xwf unfolding xs_wf_def by blast
  qed
  then have nr: "?n \<notin> ran (cpp_clients ?cw2)"
    by (auto simp: ran_def)
  have "x_parent_of (x_map_window w xs2) u \<noteq> Some ?n" for u
  proof (cases "u = w \<or> u = Suc ?n \<or> u = ?n")
    case True
    then show ?thesis using pp rlt by auto
  next
    case False
    then have "x_parent_of (x_map_window w xs2) u = x_parent_of xs u" using pp by simp
    then show ?thesis using pl [of u ?n] by auto
  qed
  moreover have "\<exists>u. xs_windows (x_map_window w xs2) ?n = Some u \<and> xw_mapped u"
    using m1 o2 [of ?n] wlt n1' by (simp add: x_windows_other)
  moreover have "x_parent_of (x_map_window w xs2) ?n = Some ?r" using pp wlt by simp
  ultimately show ?thesis
    using run nr by (intro exI [of _ ?cw2] exI [of _ "x_map_window w xs2"]) simp
qed

text \<open>C21: A client that calls XMapWindow twice before the window manager handles the first request gets two MapRequests queued, since its window stays unmapped until the window manager maps it. Neither implementation checks for a window it already manages. In C the second request appends a second record for the client and moves it into a second frame the registry does not know, so the invariant is broken. In C++ clients_[w] is overwritten, and the first frame stays on the root, mapped and empty, unknown to the registry.\<close>

theorem owen_cpp_map_request_twice:
  assumes "owen_inv ow xs1" "map_request_ok ow xs1 w" "x_exists xs1 w"
    "client_count (screen ow) + 1 < int CLIENTS_CAPACITY"
    and "cpp_inv cw xs2" "reg_fresh (cpp_clients cw) xs2 w" "x_exists xs2 w"
  shows "(\<exists>ow' xs1'. owen_run [MapRequest w, MapRequest w] ow xs1 = Inr (ow', xs1') \<and>
            registry_of (screen ow') = (registry_of (screen ow))(w \<mapsto> xs_next_id xs1) \<and>
            client_count (screen ow') = client_count (screen ow) + 2 \<and>
            x_parent_of xs1' w = Some (Suc (xs_next_id xs1)) \<and> \<not> owen_inv ow' xs1') \<and>
         (\<exists>cw' xs2'. cpp_run [MapRequest w, MapRequest w] cw xs2 = Inr (cw', xs2') \<and>
            cpp_clients cw' = (cpp_clients cw)(w \<mapsto> Suc (xs_next_id xs2)) \<and>
            xs_next_id xs2 \<notin> ran (cpp_clients cw') \<and>
            x_parent_of xs2' (xs_next_id xs2) = Some (xs_root xs2) \<and>
            (\<forall>u. x_parent_of xs2' u \<noteq> Some (xs_next_id xs2)) \<and>
            (\<exists>u. xs_windows xs2' (xs_next_id xs2) = Some u \<and> xw_mapped u))"
proof -
  obtain v where "xs_windows xs2 w = Some v" using assms(7) by (auto simp: x_exists_def)
  then show ?thesis
    using owen_map_request_twice_effect [OF assms(1-4)] cpp_map_request_twice_effect [OF assms(5,6)]
    by blast
qed

subsection \<open>Reachable states of the C++ window manager\<close>

text \<open>C13: In every state the C++ window manager reaches from a well-formed server through events the server delivers to it, clients_ is a bijection between clients and frames, no window is both a client and a frame, and every frame is a child of the root other than the phantom frame 0 that operator[] inserts.\<close>

theorem cpp_registry_bijective:
  assumes "cpp_reachable cw xs"
  shows "inj_on (cpp_clients cw) (dom (cpp_clients cw)) \<and>
         dom (cpp_clients cw) \<inter> ran (cpp_clients cw) = {} \<and>
         (\<forall>c f. cpp_clients cw c = Some f \<longrightarrow> x_parent_of xs f = Some (cpp_root cw) \<and> f \<noteq> 0)"
proof -
  have inv: "cpp_root cw = xs_root xs" "reg_tree_inv (cpp_clients cw) xs"
    using cpp_reachable_inv [OF assms] by (simp_all add: cpp_inv_def)
  have "\<not> x_exists xs 0"
    using inv(2) by (simp add: reg_tree_inv_def xs_wf_def)
  then show ?thesis
    using inv reg_tree_inv_frames_fresh(5) [OF inv(2)]
    by (auto simp: reg_tree_inv_def x_exists_parent_of)
qed

text \<open>C14: In every reachable state of the C++ window manager, an event the server can deliver other than a motion event is handled without abort, provided a MapRequest names a window that still exists, and the resulting state is again reachable.\<close>

theorem cpp_dispatch_progress:
  assumes reach: "cpp_reachable cw xs" and ok: "cpp_event_ok cw xs e"
    and live: "\<forall>w. e = MapRequest w \<longrightarrow> x_exists xs w"
    and nomo: "\<forall>m. e \<noteq> MotionNotify m"
  shows "\<exists>cw' xs'. cpp_handle_event e cw xs = Inr (cw', xs') \<and> cpp_reachable cw' xs'"
proof -
  have inv: "cpp_inv cw xs" using cpp_reachable_inv [OF reach] .
  have "\<exists>s. cpp_handle_event e cw xs = Inr s"
  proof (cases e)
    case (MapRequest w)
    then obtain v where "xs_windows xs w = Some v"
      using live by (auto simp: x_exists_def)
    then show ?thesis
      using cpp_frame_Inr [of xs w v False cw] MapRequest by (simp add: cpp_on_map_request_def)
  next
    case (ButtonPress b)
    then obtain f where f: "cpp_clients cw (be_window b) = Some f"
      using ok by (auto simp: cpp_event_ok_def)
    then have "x_exists xs f"
      using reg_tree_inv_frames_fresh(5) [of "cpp_clients cw" xs] inv
      by (simp add: cpp_inv_def x_exists_parent_of)
    then show ?thesis
      using f ButtonPress
      by (auto simp: cpp_on_button_press_def x_get_geometry_def x_exists_def Let_def)
  qed (use nomo in simp_all)
  then show ?thesis
    using cpp_reachable.step [OF reach ok] by (metis surj_pair)
qed

text \<open>C16: From a state of the C++ invariant, mapping a top-level window, dragging its new frame with a press and a button-1 motion on the client, and unmapping the client through the event loop, leaves clients_ and the window tree as they were, with one resource id consumed.\<close>

theorem cpp_map_drag_unmap_roundtrip:
  assumes inv: "cpp_inv cw xs" and ok: "reg_fresh (cpp_clients cw) xs w"
    and top: "x_parent_of xs w = Some (cpp_root cw)"
    and ev: "be_window b = w" "me_window m = w" "ue_window u = w" "ue_event u = xs_next_id xs"
    and rng: "x_coord_ok (be_x_root b)" "x_coord_ok (be_y_root b)" "x_coord_ok (me_x_root m)"
      "x_coord_ok (me_y_root m)"
  shows "\<exists>cw' xs'. cpp_run [MapRequest w, ButtonPress b, MotionNotify m, UnmapNotify u] cw xs = Inr (cw', xs') \<and>
     cpp_clients cw' = cpp_clients cw \<and> x_parent_of xs' = x_parent_of xs \<and>
     xs_next_id xs' = Suc (xs_next_id xs)"
proof -
  let ?n = "xs_next_id xs"
  have rt: "cpp_root cw = xs_root xs" and rinv: "reg_tree_inv (cpp_clients cw) xs"
    using inv by (simp_all add: cpp_inv_def)
  have xwf: "xs_wf xs" using rinv by (simp add: reg_tree_inv_def)
  obtain v where wv: "xs_windows xs w = Some v" using top by (auto simp: x_parent_of_def)
  have wn: "w \<noteq> ?n" and cw0: "cpp_clients cw w = None" using ok by (simp_all add: reg_fresh_def)
  have ex: "x_exists xs (cpp_root cw)" using rt xs_wf_root_exists [OF xwf] by simp
  have rn: "xs_root xs \<noteq> ?n" using xs_wf_root_lt [OF xwf] by simp
  let ?m = "SubstructureRedirectMask OR SubstructureNotifyMask OR ButtonPressMask"
  let ?cw1 = "cw\<lparr>cpp_clients := (cpp_clients cw)(w \<mapsto> ?n)\<rparr>"
  let ?xs0 = "x_map_window ?n (x_reparent_window w ?n 0 0 (x_add_to_save_set w (x_grab_button w
                (x_select_input ?n ?m (snd (x_create_simple_window (cpp_root cw) 50 50 (xw_width v) (xw_height v)
                   BORDER_WIDTH BORDER_COLOR BG_COLOR (x_log (ReqGetAttributes w) xs)))))))"
  have pf: "cpp_frame w False cw xs = Inr (?cw1, ?xs0)"
    using cpp_frame_Inr [OF wv, of False cw] by simp
  let ?xs1 = "x_map_window w ?xs0"
  have map: "cpp_handle_event (MapRequest w) cw xs = Inr (?cw1, ?xs1)"
    using pf by (simp add: cpp_on_map_request_def)
  have e1: "x_parent_of ?xs0 = ((x_parent_of xs)(?n \<mapsto> cpp_root cw))(w \<mapsto> ?n)"
      "xs_root ?xs0 = xs_root xs" "xs_next_id ?xs0 = Suc ?n"
    using cpp_frame_effect [OF ex wn pf] top by (simp_all add: x_exists_parent_of)
  have ex0: "x_exists (x_log (ReqGetAttributes w) xs) (cpp_root cw)"
    using ex by (simp add: x_exists_def x_log_def)
  have "map_option (\<lambda>u. (xw_x u, xw_y u)) (xs_windows ?xs1 ?n) = Some (50, 50)"
    using wn x_create_pos [OF ex0] by (simp add: x_pos_ops x_windows_other x_log_def)
  then obtain fv where fv: "xs_windows ?xs1 ?n = Some fv" "xw_x fv = 50" "xw_y fv = 50"
    by auto
  have c1: "cpp_clients ?cw1 w = Some ?n" by simp
  have rf: "x_coord_ok (xw_x fv)" "x_coord_ok (xw_y fv)" using fv by (simp_all add: x_coord_ok_def)
  obtain cw2 xs2 where press: "cpp_handle_event (ButtonPress b) ?cw1 ?xs1 = Inr (cw2, xs2)"
      and c2: "cpp_clients cw2 = cpp_clients ?cw1" "cpp_root cw2 = cpp_root ?cw1"
      and t2: "x_same_tree ?xs1 xs2"
      and mo: "cpp_handle_event (MotionNotify m) cw2 xs2 =
       Inr (cw2, if me_state m AND Button1Mask \<noteq> 0
                 then x_move_window ?n (xw_x fv + (me_x_root m - be_x_root b))
                        (xw_y fv + (me_y_root m - be_y_root b)) xs2
                 else xs2)"
    by (rule cpp_press_motion [OF c1 fv(1) ev(1,2) rng rf]) blast
  define xs3 where "xs3 = (if me_state m AND Button1Mask \<noteq> 0
              then x_move_window ?n (xw_x fv + (me_x_root m - be_x_root b))
                     (xw_y fv + (me_y_root m - be_y_root b)) xs2
              else xs2)"
  have mo3: "cpp_handle_event (MotionNotify m) cw2 xs2 = Inr (cw2, xs3)"
    using mo by (simp add: xs3_def)
  have "x_same_tree ?xs0 xs2"
    using x_same_tree_ops(5) [of ?xs0 w] t2 x_same_tree_trans by blast
  moreover have "x_same_tree xs2 xs3"
    by (simp add: xs3_def x_same_tree_ops(8))
  ultimately have "x_same_tree ?xs0 xs3"
    using x_same_tree_trans by blast
  then have t3: "x_parent_of xs3 = ((x_parent_of xs)(?n \<mapsto> cpp_root cw))(w \<mapsto> ?n)"
      "xs_root xs3 = xs_root xs" "xs_next_id xs3 = Suc ?n" "xs_wf xs3 = xs_wf ?xs0"
    using e1 x_same_tree_wf by (simp_all add: x_same_tree_def)
  have "cpp_inv ?cw1 ?xs0" using cpp_frame_step [OF inv ok pf] by simp
  then have wf3: "xs_wf xs3" using t3(4) by (simp add: cpp_inv_def reg_tree_inv_def)
  have un: "cpp_handle_event (UnmapNotify u) cw2 xs3 =
      Inr (cw2\<lparr>cpp_clients := (cpp_clients cw2)(w := None)\<rparr>,
           x_destroy_window ?n (x_remove_from_save_set w
             (x_reparent_window w (xs_root xs3) 0 0 (x_unmap_window ?n xs3))))"
    using c2 ev(3,4) rn rt t3(2) by (simp add: cpp_on_unmap_notify_def cpp_unframe_def)
  note srv = owen_unframe_server [OF wf3, of ?n w]
  have p3: "x_parent_of xs3 ?n = Some (xs_root xs3)" "?n \<noteq> xs_root xs3" "w \<noteq> ?n"
    using t3 rt rn wn by simp_all
  have old: "x_parent_of xs ?n = None" "x_parent_of xs v \<noteq> Some ?n" for v
    using xwf xs_wf_parent_lt [OF xwf, of v ?n] by (auto simp: xs_wf_def x_exists_parent_of)
  have tree: "x_parent_of (x_destroy_window ?n (x_remove_from_save_set w
             (x_reparent_window w (xs_root xs3) 0 0 (x_unmap_window ?n xs3)))) = x_parent_of xs"
    using srv(1) [OF p3] t3(1,2) old top rt by (auto simp: fun_eq_iff x_exists_parent_of)
  have next4: "xs_next_id (x_destroy_window ?n (x_remove_from_save_set w
             (x_reparent_window w (xs_root xs3) 0 0 (x_unmap_window ?n xs3)))) = Suc ?n"
    using srv(3) [OF p3] t3(3) by simp
  have nm: "x_check_typed_window_event (me_window m) [UnmapNotify u] = None" by simp
  show ?thesis
    using map press mo3 un tree next4 c2 cw0
      cpp_run_not_motion [of "MapRequest w"] cpp_run_not_motion [of "ButtonPress b"]
      cpp_run_not_motion [of "UnmapNotify u" "[]"] cpp_run_last_motion [OF nm] cpp_run.simps [of "[]"]
    by (simp add: fun_upd_idem)
qed


lemma demo_boots_same_tree:
  "\<exists>ow xs cw xs'. owen_main (Some demo_server) [] = Inr (ow, xs) \<and>
     cpp_main (Some demo_server) [] = Inr (cw, xs') \<and> x_same_tree xs xs'"
  by (simp add: demo_eval cpp_main_def cpp_create_def cpp_run_init_def cpp_frame_def
     cpp_run.simps [of "[]"] cpp_on_wm_detected_def x_same_tree_def x_parent_of_def fun_eq_iff)

lemma cpp_demo_boot:
  "\<exists>cw xs. cpp_main (Some demo_server) [] = Inr (cw, xs) \<and> cpp_root cw = 1 \<and>
     cpp_clients cw = [2 \<mapsto> 10] \<and> xs_root xs = 1 \<and> xs_next_id xs = 11 \<and>
     xs_windows xs 3 = Some (demo_win 1 False) \<and> x_exists xs 2"
  by (simp add: demo_eval cpp_main_def cpp_create_def cpp_run_init_def cpp_frame_def
     cpp_run.simps [of "[]"] cpp_on_wm_detected_def fun_eq_iff)

subsection \<open>Witnesses\<close>

theorem cpp_map_request_frames_witness:
  "\<exists>cw' xs'. cpp_handle_event (MapRequest 4) demo_cpp demo_server = Inr (cw', xs') \<and>
     cpp_clients cw' = [2 \<mapsto> 3, 4 \<mapsto> 10] \<and>
     xs_requests xs' =
       [ReqGetAttributes 4, ReqCreateWindow 10 1 50 50 640 480 BORDER_WIDTH BORDER_COLOR BG_COLOR,
        ReqSelectInput 10 (SubstructureRedirectMask OR SubstructureNotifyMask OR ButtonPressMask),
        ReqGrabButton 4, ReqAddToSaveSet 4, ReqReparent 4 10 0 0, ReqMap 10, ReqMap 4]"
  using cpp_map_request_frames [of demo_server 4 "demo_win 1 False" demo_cpp]
  by (simp add: demo_server_def demo_win_def demo_cpp_def)

theorem cpp_button_press_unmanaged_witness:
  "cpp_clients (snd (cpp_index 1 demo_cpp)) 1 = Some 0 \<and>
   cpp_handle_event (ButtonPress \<lparr>be_window = 1, be_x_root = 5, be_y_root = 5\<rparr>) demo_cpp demo_server =
   Inl UninitialisedRead"
  using cpp_button_press_unmanaged [OF demo_server_wf(1), of demo_cpp "\<lparr>be_window = 1, be_x_root = 5, be_y_root = 5\<rparr>"]
  by (simp add: demo_cpp_def)

theorem cpp_motion_phantom_client_witness:
  "\<exists>cw1 cw2 xs2.
     cpp_handle_event (MotionNotify \<lparr>me_window = 4, me_x_root = 10, me_y_root = 10, me_state = 0\<rparr>)
       (demo_cpp\<lparr>drag_start_pos_x := Some 0, drag_start_pos_y := Some 0\<rparr>) demo_server = Inr (cw1, demo_server) \<and>
     cpp_clients cw1 = [2 \<mapsto> 3, 4 \<mapsto> 0] \<and>
     cpp_handle_event (UnmapNotify \<lparr>ue_event = 7, ue_window = 4\<rparr>) cw1 demo_server = Inr (cw2, xs2) \<and>
     cpp_clients cw2 = [2 \<mapsto> 3] \<and>
     xs_requests xs2 = [ReqUnmap 0, ReqReparent 4 1 0 0, ReqRemoveFromSaveSet 4, ReqDestroy 0]"
  using cpp_motion_phantom_client [of "demo_cpp\<lparr>drag_start_pos_x := Some 0, drag_start_pos_y := Some 0\<rparr>" 4
          "\<lparr>me_window = 4, me_x_root = 10, me_y_root = 10, me_state = 0\<rparr>" 0 0
          "\<lparr>ue_event = 7, ue_window = 4\<rparr>" demo_server]
  by (simp add: demo_cpp_def demo_server_def int32_ok_def)

theorem cpp_drag_moves_frame_witness:
  "\<exists>cw1 xs1 cw2 xs2.
     cpp_handle_event (ButtonPress \<lparr>be_window = 2, be_x_root = 100, be_y_root = 100\<rparr>) demo_cpp demo_server =
       Inr (cw1, xs1) \<and>
     cpp_handle_event (MotionNotify (demo_motion 130 90)) cw1 xs1 = Inr (cw2, xs2) \<and>
     cpp_clients cw2 = [2 \<mapsto> 3] \<and>
     xs_windows xs2 3 = Some ((demo_win 1 False)\<lparr>xw_x := 30, xw_y := -10\<rparr>)"
proof -
  have "xs_windows demo_server 3 = Some (demo_win 1 False)" by (simp add: demo_server_def)
  then show ?thesis
    using cpp_drag_moves_frame [of demo_cpp 2 3 demo_server "demo_win 1 False"
            "\<lparr>be_window = 2, be_x_root = 100, be_y_root = 100\<rparr>" "demo_motion 130 90"]
    by (simp add: demo_cpp_def demo_motion_def demo_win_def x_coord_ok_def Button1Mask_def)
qed

theorem cpp_motion_no_overflow_witness:
  "\<exists>cw' xs'. cpp_handle_event (MotionNotify (demo_motion (-32768) 32767)) demo_dragging demo_server =
     Inr (cw', xs')"
  using cpp_motion_no_overflow [of demo_dragging 100 100 0 0 "demo_motion (-32768) 32767" demo_server]
  by (simp add: demo_dragging_def demo_motion_def x_coord_ok_def)

theorem cpp_drag_coalesce_sound_witness:
  "\<exists>xs1 xs2. cpp_run [MotionNotify (demo_motion 110 120), MotionNotify (demo_motion 150 90)]
       demo_dragging demo_server = Inr (demo_dragging, xs1) \<and>
     cpp_motions_each [demo_motion 110 120, demo_motion 150 90] demo_dragging demo_server =
       Inr (demo_dragging, xs2) \<and> xs_windows xs1 = xs_windows xs2"
  using cpp_drag_coalesce_sound [of demo_dragging 2 3 100 100 0 0 "[demo_motion 110 120, demo_motion 150 90]"
          demo_server]
  by (simp add: demo_dragging_def demo_cpp_def demo_motion_def x_coord_ok_def Button1Mask_def)

theorem cpp_handshake_check_aborts_witness:
  "cpp_run_init demo_cpp (demo_server\<lparr>xs_pending_errors := [\<lparr>error_code = BadWindow, resourceid = 9\<rparr>]\<rparr>) =
     Inl CheckFailed \<and>
   (\<exists>s. owen_init (Some (demo_server\<lparr>xs_pending_errors := [\<lparr>error_code = BadWindow, resourceid = 9\<rparr>]\<rparr>)) =
     Inr s)"
proof -
  have "xs_wf (demo_server\<lparr>xs_pending_errors := [\<lparr>error_code = BadWindow, resourceid = 9\<rparr>]\<rparr>)"
    using demo_server_wf(1) by (simp add: xs_wf_def x_parent_of_def x_exists_def)
  then show ?thesis
    using cpp_handshake_check_aborts [of "demo_server\<lparr>xs_pending_errors := [\<lparr>error_code = BadWindow, resourceid = 9\<rparr>]\<rparr>"
            demo_cpp "\<lparr>error_code = BadWindow, resourceid = 9\<rparr>" "[]"]
    by (simp add: demo_cpp_def demo_server_def)
qed

theorem owen_cpp_vanished_window_witness:
  "\<exists>ow xs. owen_main (Some demo_server) [] = Inr (ow, xs) \<and>
     cpp_handle_event (MapRequest 5) demo_cpp xs = Inl CheckFailed \<and>
     (\<exists>ow' xs'. owen_handle_event (MapRequest 5) ow xs = Inr (ow', xs') \<and>
        registry_of (screen ow') 5 = Some 11 \<and> xs_windows xs' 5 = None \<and>
        (\<exists>u. xs_windows xs' 11 = Some u \<and> xw_mapped u \<and> xw_parent u = 1))"
proof -
  obtain ow xs where run: "owen_main (Some demo_server) [] = Inr (ow, xs)" and inv: "owen_inv ow xs"
    and f: "root ow = 1" "registry_of (screen ow) = [2 \<mapsto> 10]" "client_count (screen ow) = 1"
      "xs_root xs = 1" "xs_next_id xs = 11" "xs_windows xs 3 = Some (demo_win 1 False)"
    and gone: "xs_windows xs 5 = None"
    by (rule demo_booted)
  have ok: "map_request_ok ow xs 5" using f by (simp add: map_request_ok_def reg_fresh_def)
  have room: "client_count (screen ow) < int CLIENTS_CAPACITY" using f by (simp add: CLIENTS_CAPACITY_def)
  show ?thesis
    using owen_cpp_vanished_window [OF inv ok room gone, of demo_cpp] run f by auto
qed

theorem owen_cpp_handlers_agree_witness:
  "\<exists>ow xs ow' xs1 cw' xs2. owen_main (Some demo_server) [] = Inr (ow, xs) \<and>
     owen_handle_event (MapRequest 3) ow xs = Inr (ow', xs1) \<and>
     cpp_handle_event (MapRequest 3) (demo_cpp\<lparr>cpp_clients := [2 \<mapsto> 10]\<rparr>) xs = Inr (cw', xs2) \<and>
     owen_cpp_corr ow' cw' \<and> x_parent_of xs1 = x_parent_of xs2"
proof -
  obtain ow xs where run: "owen_main (Some demo_server) [] = Inr (ow, xs)" and inv: "owen_inv ow xs"
    and f: "root ow = 1" "registry_of (screen ow) = [2 \<mapsto> 10]" "client_count (screen ow) = 1"
      "xs_root xs = 1" "xs_next_id xs = 11" "xs_windows xs 3 = Some (demo_win 1 False)"
    by (rule demo_booted)
  let ?cw = "demo_cpp\<lparr>cpp_clients := [2 \<mapsto> 10]\<rparr>"
  have corr: "owen_cpp_corr ow ?cw" using f by (simp add: owen_cpp_corr_def demo_cpp_def)
  have ok: "owen_event_ok ow xs (MapRequest 3)" using f by (simp add: owen_event_ok_def map_request_ok_def reg_fresh_def)
  have room: "client_count (screen ow) < int CLIENTS_CAPACITY" using f by (simp add: CLIENTS_CAPACITY_def)
  obtain r1 where c: "owen_handle_event (MapRequest 3) ow xs = Inr r1"
    using owen_map_request_Inr [OF inv room, of 3] by simp
  obtain r2 where p: "cpp_handle_event (MapRequest 3) ?cw xs = Inr r2"
    using cpp_frame_Inr [OF f(6), of False ?cw] by (simp add: cpp_on_map_request_def)
  obtain ow' xs1 where r1: "r1 = (ow', xs1)" by (cases r1)
  obtain cw' xs2 where r2: "r2 = (cw', xs2)" by (cases r2)
  show ?thesis
    using owen_cpp_handlers_agree [OF inv corr _ ok c [unfolded r1] p [unfolded r2]] run c p r1 r2 by auto
qed

theorem cpp_registry_bijective_witness:
  "\<exists>cw xs. cpp_main (Some demo_server) [] = Inr (cw, xs) \<and> cpp_clients cw 2 = Some 10 \<and>
     inj_on (cpp_clients cw) (dom (cpp_clients cw)) \<and>
     dom (cpp_clients cw) \<inter> ran (cpp_clients cw) = {} \<and> x_parent_of xs 10 = Some (cpp_root cw)"
proof -
  obtain cw xs where run: "cpp_main (Some demo_server) [] = Inr (cw, xs)"
    and f: "cpp_clients cw = [2 \<mapsto> 10]"
    using cpp_demo_boot by blast
  have "cpp_reachable cw xs"
    using cpp_reachable.start [OF demo_server_wf run] .
  then show ?thesis
    using cpp_registry_bijective [of cw xs] run f by auto
qed

theorem cpp_dispatch_progress_witness:
  "\<exists>cw xs cw' xs'. cpp_main (Some demo_server) [] = Inr (cw, xs) \<and>
     cpp_handle_event (MapRequest 3) cw xs = Inr (cw', xs') \<and> cpp_reachable cw' xs' \<and>
     cpp_clients cw' 3 = Some 11"
proof -
  obtain cw xs where run: "cpp_main (Some demo_server) [] = Inr (cw, xs)"
    and f: "cpp_clients cw = [2 \<mapsto> 10]" "xs_root xs = 1" "xs_next_id xs = 11"
      "xs_windows xs 3 = Some (demo_win 1 False)"
    using cpp_demo_boot by blast
  have reach: "cpp_reachable cw xs"
    using cpp_reachable.start [OF demo_server_wf run] .
  have ok: "cpp_event_ok cw xs (MapRequest 3)"
    using f by (simp add: cpp_event_ok_def reg_fresh_def)
  obtain cw' xs' where h: "cpp_handle_event (MapRequest 3) cw xs = Inr (cw', xs')"
      and r: "cpp_reachable cw' xs'"
    using cpp_dispatch_progress [OF reach ok] f by (auto simp: x_exists_def)
  have "cpp_clients cw' 3 = Some 11"
    using h cpp_frame_Inr [OF f(4), of False cw] f by (auto simp: cpp_on_map_request_def)
  then show ?thesis
    using run h r by blast
qed

theorem owen_cpp_runs_agree_witness:
  "\<exists>ow xs cw xs' ow' xs1 cw' xs2. owen_main (Some demo_server) [] = Inr (ow, xs) \<and>
     cpp_main (Some demo_server) [] = Inr (cw, xs') \<and>
     owen_run [MapRequest 3] ow xs = Inr (ow', xs1) \<and> cpp_run [MapRequest 3] cw xs' = Inr (cw', xs2) \<and>
     owen_cpp_corr ow' cw' \<and> x_same_tree xs1 xs2"
proof -
  obtain ow xs where run: "owen_main (Some demo_server) [] = Inr (ow, xs)" and inv: "owen_inv ow xs"
    and f: "root ow = 1" "registry_of (screen ow) = [2 \<mapsto> 10]" "client_count (screen ow) = 1"
      "xs_root xs = 1" "xs_next_id xs = 11"
    by (rule demo_booted)
  obtain cw xs' where run': "cpp_main (Some demo_server) [] = Inr (cw, xs')"
    and g: "cpp_root cw = 1" "cpp_clients cw = [2 \<mapsto> 10]" "xs_windows xs' 3 = Some (demo_win 1 False)"
    using cpp_demo_boot by blast
  have tr: "x_same_tree xs xs'"
    using demo_boots_same_tree run run' by auto
  have corr: "owen_cpp_corr ow cw" using f g by (simp add: owen_cpp_corr_def)
  have ok: "owen_event_ok ow xs (MapRequest 3)"
    using f by (simp add: owen_event_ok_def map_request_ok_def reg_fresh_def)
  then have oks: "owen_events_ok [MapRequest 3] ow xs"
    by (simp split: sum.split)
  have room: "client_count (screen ow) < int CLIENTS_CAPACITY" using f by (simp add: CLIENTS_CAPACITY_def)
  obtain r1 where c: "owen_run [MapRequest 3] ow xs = Inr r1"
    using owen_map_request_Inr [OF inv room, of 3] by auto
  obtain r2 where p: "cpp_run [MapRequest 3] cw xs' = Inr r2"
    using cpp_frame_Inr [OF g(3), of False cw] cpp_run_not_motion [of "MapRequest 3" "[]" cw xs']
    by (simp add: cpp_on_map_request_def cpp_run.simps [of "[]"])
  obtain ow' xs1 where r1: "r1 = (ow', xs1)" by (cases r1)
  obtain cw' xs2 where r2: "r2 = (cw', xs2)" by (cases r2)
  show ?thesis
    using owen_cpp_runs_agree [OF inv corr tr _ oks c [unfolded r1] p [unfolded r2]] run run' c p r1 r2
    by auto
qed

theorem cpp_map_drag_unmap_roundtrip_witness:
  "\<exists>cw xs cw' xs'. cpp_main (Some demo_server) [] = Inr (cw, xs) \<and>
     cpp_run [MapRequest 3, ButtonPress \<lparr>be_window = 3, be_x_root = 100, be_y_root = 100\<rparr>,
              MotionNotify \<lparr>me_window = 3, me_x_root = 130, me_y_root = 90, me_state = Button1Mask\<rparr>,
              UnmapNotify \<lparr>ue_event = 11, ue_window = 3\<rparr>] cw xs = Inr (cw', xs') \<and>
     cpp_clients cw' = [2 \<mapsto> 10] \<and> x_parent_of xs' = x_parent_of xs \<and> xs_next_id xs' = 12"
proof -
  obtain cw xs where run: "cpp_main (Some demo_server) [] = Inr (cw, xs)"
    and f: "cpp_root cw = 1" "cpp_clients cw = [2 \<mapsto> 10]" "xs_root xs = 1" "xs_next_id xs = 11"
      "xs_windows xs 3 = Some (demo_win 1 False)"
    using cpp_demo_boot by blast
  have inv: "cpp_inv cw xs"
    using cpp_reachable_inv [OF cpp_reachable.start [OF demo_server_wf run]] .
  have ok: "reg_fresh (cpp_clients cw) xs 3" using f by (simp add: reg_fresh_def)
  have top: "x_parent_of xs 3 = Some (cpp_root cw)" using f by (simp add: x_parent_of_def demo_win_def)
  show ?thesis
    using cpp_map_drag_unmap_roundtrip [OF inv ok top,
        of "\<lparr>be_window = 3, be_x_root = 100, be_y_root = 100\<rparr>"
           "\<lparr>me_window = 3, me_x_root = 130, me_y_root = 90, me_state = Button1Mask\<rparr>"
           "\<lparr>ue_event = 11, ue_window = 3\<rparr>"] run f
    by (simp add: x_coord_ok_def)
qed

theorem owen_cpp_map_request_twice_witness:
  "\<exists>ow xs cw xs'. owen_main (Some demo_server) [] = Inr (ow, xs) \<and> cpp_main (Some demo_server) [] = Inr (cw, xs') \<and>
     (\<exists>ow1 xs1. owen_run [MapRequest 3, MapRequest 3] ow xs = Inr (ow1, xs1) \<and>
        registry_of (screen ow1) = [2 \<mapsto> 10, 3 \<mapsto> 11] \<and> client_count (screen ow1) = 3 \<and>
        x_parent_of xs1 3 = Some 12 \<and> \<not> owen_inv ow1 xs1) \<and>
     (\<exists>cw1 xs1. cpp_run [MapRequest 3, MapRequest 3] cw xs' = Inr (cw1, xs1) \<and>
        cpp_clients cw1 = [2 \<mapsto> 10, 3 \<mapsto> 12] \<and> x_parent_of xs1 11 = Some 1 \<and>
        (\<forall>u. x_parent_of xs1 u \<noteq> Some 11) \<and> (\<exists>u. xs_windows xs1 11 = Some u \<and> xw_mapped u))"
proof -
  obtain ow xs where run: "owen_main (Some demo_server) [] = Inr (ow, xs)" and inv: "owen_inv ow xs"
    and f: "root ow = 1" "registry_of (screen ow) = [2 \<mapsto> 10]" "client_count (screen ow) = 1"
      "xs_root xs = 1" "xs_next_id xs = 11" "xs_windows xs 3 = Some (demo_win 1 False)"
    by (rule demo_booted)
  obtain cw xs' where run': "cpp_main (Some demo_server) [] = Inr (cw, xs')"
    and g: "cpp_clients cw = [2 \<mapsto> 10]" "xs_root xs' = 1" "xs_next_id xs' = 11"
      "xs_windows xs' 3 = Some (demo_win 1 False)"
    using cpp_demo_boot by blast
  have cinv: "cpp_inv cw xs'"
    using cpp_reachable_inv [OF cpp_reachable.start [OF demo_server_wf run']] .
  have ok: "map_request_ok ow xs 3" using f by (simp add: map_request_ok_def reg_fresh_def)
  have ok': "reg_fresh (cpp_clients cw) xs' 3" using g by (simp add: reg_fresh_def)
  have ex: "x_exists xs 3" "x_exists xs' 3" using f(6) g(4) by (simp_all add: x_exists_def)
  have room: "client_count (screen ow) + 1 < int CLIENTS_CAPACITY" using f by (simp add: CLIENTS_CAPACITY_def)
  note t = owen_cpp_map_request_twice [OF inv ok ex(1) room cinv ok' ex(2)]
  have "\<exists>ow1 xs1. owen_run [MapRequest 3, MapRequest 3] ow xs = Inr (ow1, xs1) \<and>
        registry_of (screen ow1) = [2 \<mapsto> 10, 3 \<mapsto> 11] \<and> client_count (screen ow1) = 3 \<and>
        x_parent_of xs1 3 = Some 12 \<and> \<not> owen_inv ow1 xs1"
    using conjunct1 [OF t] f by simp
  moreover have "\<exists>cw1 xs1. cpp_run [MapRequest 3, MapRequest 3] cw xs' = Inr (cw1, xs1) \<and>
        cpp_clients cw1 = [2 \<mapsto> 10, 3 \<mapsto> 12] \<and> x_parent_of xs1 11 = Some 1 \<and>
        (\<forall>u. x_parent_of xs1 u \<noteq> Some 11) \<and> (\<exists>u. xs_windows xs1 11 = Some u \<and> xw_mapped u)"
    using conjunct2 [OF t] g by auto
  ultimately show ?thesis using run run' by blast
qed

subsection \<open>Crash safety\<close>

text \<open>C15: In every reachable state of the C++ window manager, closing the display connection (the destructor \<open>~WindowManager\<close>, or the process dying) returns every existing managed client to the root, mapped and at the screen position it had inside its frame, destroys every frame, and keeps every other existing window.\<close>

theorem cpp_crash_safe:
  assumes reach: "cpp_reachable cw xs"
  shows "(\<forall>c f. cpp_clients cw c = Some f \<longrightarrow> x_exists xs c \<longrightarrow>
            (\<exists>u0 p u. xs_windows xs c = Some u0 \<and> xs_windows xs f = Some p \<and>
               xs_windows (cpp_destroy cw xs) c = Some u \<and> xw_parent u = xs_root xs \<and> xw_mapped u \<and>
               xw_x u = xw_x p + xw_border_width p + xw_x u0 \<and>
               xw_y u = xw_y p + xw_border_width p + xw_y u0)) \<and>
         (\<forall>f \<in> ran (cpp_clients cw). \<not> x_exists (cpp_destroy cw xs) f) \<and>
         (\<forall>v. x_exists xs v \<and> v \<notin> ran (cpp_clients cw) \<longrightarrow> x_exists (cpp_destroy cw xs) v)"
proof -
  have "reg_tree_inv (cpp_clients cw) xs"
    using cpp_reachable_inv [OF reach] by (simp add: cpp_inv_def)
  then show ?thesis
    using x_close_display_safe [OF _ cpp_reachable_save_set [OF reach]] by (simp add: cpp_destroy_def)
qed

theorem cpp_crash_safe_witness:
  "\<exists>cw xs. cpp_main (Some demo_server) [] = Inr (cw, xs) \<and> cpp_reachable cw xs \<and>
     (\<exists>u. xs_windows (cpp_destroy cw xs) 2 = Some u \<and> xw_parent u = 1 \<and> xw_mapped u) \<and>
     \<not> x_exists (cpp_destroy cw xs) 10 \<and> x_exists (cpp_destroy cw xs) 3"
proof -
  obtain cw xs where run: "cpp_main (Some demo_server) [] = Inr (cw, xs)"
    and f: "cpp_clients cw = [2 \<mapsto> 10]" "xs_root xs = 1"
      "xs_windows xs 3 = Some (demo_win 1 False)" "x_exists xs 2"
    using cpp_demo_boot by blast
  have reach: "cpp_reachable cw xs"
    using cpp_reachable.start [OF demo_server_wf run] .
  note c = cpp_crash_safe [OF reach]
  have "x_exists xs 3" using f(3) by (simp add: x_exists_def)
  then have "x_exists (cpp_destroy cw xs) 3" using c f(1) by auto
  moreover have "\<not> x_exists (cpp_destroy cw xs) 10" using c f(1) by auto
  moreover have "\<exists>u. xs_windows (cpp_destroy cw xs) 2 = Some u \<and> xw_parent u = 1 \<and> xw_mapped u"
    using c f(1,2,4) by fastforce
  ultimately show ?thesis using run reach by blast
qed

end
