(* ===== verification/X_Clients.thy ===== *)
theory X_Clients
  imports Save_Set
begin

text \<open>
  The other clients of the display, and the events the X server generates for the window
  manager when they act (spec section 6, and the X protocol's rules for
  \<open>MapWindow\<close>, \<open>UnmapWindow\<close>, \<open>ConfigureWindow\<close>, \<open>CreateWindow\<close> and
  \<open>DestroyWindow\<close>). This is the environment of the window manager, not code of the
  repository. Only the window manager selects input in the model, so a window's event mask
  is the window manager's selection on it. A request of another client is redirected to
  the window manager as a \<open>MapRequest\<close> or \<open>ConfigureRequest\<close> when the window manager
  holds substructure redirection on the window's parent and the window is not
  override-redirect; otherwise it is performed, and a notification is queued when the
  window manager selected substructure notification on the parent. Each operation
  returns the new server and the events queued for the window manager, in order.
  Clients create top-level windows only: the window manager never sees deeper ones.
\<close>

definition x_selects :: "XServer \<Rightarrow> window \<Rightarrow> 64 word \<Rightarrow> bool" where
  "x_selects xs p m \<longleftrightarrow> (case xs_windows xs p of Some u \<Rightarrow> xw_event_mask u AND m \<noteq> 0 | None \<Rightarrow> False)"

definition x_mapped :: "XServer \<Rightarrow> window \<Rightarrow> bool" where
  "x_mapped xs w \<longleftrightarrow> (case xs_windows xs w of Some u \<Rightarrow> xw_mapped u | None \<Rightarrow> False)"

definition xc_create_window :: "int \<Rightarrow> int \<Rightarrow> int \<Rightarrow> int \<Rightarrow> bool \<Rightarrow> XServer \<Rightarrow> XServer \<times> XEvent list" where
  "xc_create_window x y wd ht ovr xs =
     (let n = xs_next_id xs; r = xs_root xs
      in (xs\<lparr>xs_windows := (xs_windows xs)(n \<mapsto>
                \<lparr>xw_parent = r, xw_x = x, xw_y = y, xw_width = wd, xw_height = ht,
                 xw_border_width = 0, xw_mapped = False, xw_override_redirect = ovr,
                 xw_event_mask = 0\<rparr>),
              xs_stack := xs_stack xs @ [n], xs_next_id := Suc n\<rparr>,
          if x_selects xs r SubstructureNotifyMask then [CreateNotify n] else []))"

definition xc_map_window :: "window \<Rightarrow> XServer \<Rightarrow> XServer \<times> XEvent list" where
  "xc_map_window w xs =
     (case xs_windows xs w of
        None \<Rightarrow> (xs, [])
      | Some u \<Rightarrow>
          if xw_mapped u then (xs, [])
          else if \<not> xw_override_redirect u \<and> x_selects xs (xw_parent u) SubstructureRedirectMask
          then (xs, [MapRequest w])
          else (xs\<lparr>xs_windows := (xs_windows xs)(w \<mapsto> u\<lparr>xw_mapped := True\<rparr>)\<rparr>,
                if x_selects xs (xw_parent u) SubstructureNotifyMask then [MapNotify w] else []))"

definition xc_unmap_window :: "window \<Rightarrow> XServer \<Rightarrow> XServer \<times> XEvent list" where
  "xc_unmap_window w xs =
     (case xs_windows xs w of
        None \<Rightarrow> (xs, [])
      | Some u \<Rightarrow>
          if \<not> xw_mapped u then (xs, [])
          else (xs\<lparr>xs_windows := (xs_windows xs)(w \<mapsto> u\<lparr>xw_mapped := False\<rparr>)\<rparr>,
                if x_selects xs (xw_parent u) SubstructureNotifyMask
                then [UnmapNotify \<lparr>ue_event = xw_parent u, ue_window = w\<rparr>] else []))"

definition xc_configure_window ::
  "window \<Rightarrow> 64 word \<Rightarrow> XWindowChanges \<Rightarrow> XServer \<Rightarrow> XServer \<times> XEvent list" where
  "xc_configure_window w m c xs =
     (case xs_windows xs w of
        None \<Rightarrow> (xs, [])
      | Some u \<Rightarrow>
          if \<not> xw_override_redirect u \<and> x_selects xs (xw_parent u) SubstructureRedirectMask
          then (xs, [ConfigureRequest \<lparr>cr_window = w, cr_x = wc_x c, cr_y = wc_y c,
                       cr_width = wc_width c, cr_height = wc_height c,
                       cr_border_width = wc_border_width c, cr_above = wc_sibling c,
                       cr_detail = wc_stack_mode c, cr_value_mask = m\<rparr>])
          else (xs\<lparr>xs_windows := (xs_windows xs)(w \<mapsto> x_apply_changes m c u)\<rparr>,
                if x_selects xs (xw_parent u) SubstructureNotifyMask then [ConfigureNotify w] else []))"

text \<open>Destroying a mapped window unmaps it first; the window and its children go.\<close>

definition xc_destroy_window :: "window \<Rightarrow> XServer \<Rightarrow> XServer \<times> XEvent list" where
  "xc_destroy_window w xs =
     (case xs_windows xs w of
        None \<Rightarrow> (xs, [])
      | Some u \<Rightarrow>
          let p = xw_parent u; ntf = x_selects xs p SubstructureNotifyMask
          in (xs\<lparr>xs_windows := (\<lambda>v. if x_doomed xs w v then None else xs_windows xs v),
                 xs_stack := filter (\<lambda>v. \<not> x_doomed xs w v) (xs_stack xs),
                 xs_save_set := {v \<in> xs_save_set xs. \<not> x_doomed xs w v},
                 xs_owned := {v \<in> xs_owned xs. \<not> x_doomed xs w v}\<rparr>,
              (if xw_mapped u \<and> ntf then [UnmapNotify \<lparr>ue_event = p, ue_window = w\<rparr>] else []) @
              (if ntf then [DestroyNotify w] else [])))"

text \<open>The requests of the other clients. A client acts on its own windows: not on the
  root and not on a window of the window manager's connection.\<close>

datatype XClientRequest =
    XcCreate int int int int bool
  | XcMap window
  | XcUnmap window
  | XcConfigure window "64 word" XWindowChanges
  | XcDestroy window

definition xc_own :: "XServer \<Rightarrow> window \<Rightarrow> bool" where
  "xc_own xs w \<longleftrightarrow> w \<noteq> xs_root xs \<and> w \<notin> xs_owned xs"

fun xc_step :: "XClientRequest \<Rightarrow> XServer \<Rightarrow> XServer \<times> XEvent list" where
  "xc_step (XcCreate x y wd ht ovr) xs = xc_create_window x y wd ht ovr xs"
| "xc_step (XcMap w) xs = (if xc_own xs w then xc_map_window w xs else (xs, []))"
| "xc_step (XcUnmap w) xs = (if xc_own xs w then xc_unmap_window w xs else (xs, []))"
| "xc_step (XcConfigure w m c) xs = (if xc_own xs w then xc_configure_window w m c xs else (xs, []))"
| "xc_step (XcDestroy w) xs = (if xc_own xs w then xc_destroy_window w xs else (xs, []))"

subsection \<open>Effect on the window tree and the connection's resources\<close>

lemma xc_keeps_env:
  "x_same_env xs (fst (xc_map_window w xs))"
  "x_same_env xs (fst (xc_unmap_window w xs))"
  "x_same_env xs (fst (xc_configure_window w m c xs))"
  by (auto simp: xc_map_window_def xc_unmap_window_def xc_configure_window_def x_same_env_def
                 x_same_tree_def x_parent_of_def x_apply_changes_def fun_eq_iff split: option.splits)

lemma xc_create_window_server:
  "xs_root (fst (xc_create_window x y wd ht ovr xs)) = xs_root xs"
  "xs_next_id (fst (xc_create_window x y wd ht ovr xs)) = Suc (xs_next_id xs)"
  "x_parent_of (fst (xc_create_window x y wd ht ovr xs)) = (x_parent_of xs)(xs_next_id xs \<mapsto> xs_root xs)"
  "xs_save_set (fst (xc_create_window x y wd ht ovr xs)) = xs_save_set xs"
  "xs_owned (fst (xc_create_window x y wd ht ovr xs)) = xs_owned xs"
  by (simp_all add: xc_create_window_def Let_def x_parent_of_def fun_eq_iff)

lemma xc_destroy_window_server:
  "xs_root (fst (xc_destroy_window w xs)) = xs_root xs"
  "xs_next_id (fst (xc_destroy_window w xs)) = xs_next_id xs"
  "x_parent_of (fst (xc_destroy_window w xs)) v =
     (if x_exists xs w \<and> x_doomed xs w v then None else x_parent_of xs v)"
  "xs_save_set (fst (xc_destroy_window w xs)) = {v \<in> xs_save_set xs. x_exists xs w \<longrightarrow> \<not> x_doomed xs w v}"
  "xs_owned (fst (xc_destroy_window w xs)) = {v \<in> xs_owned xs. x_exists xs w \<longrightarrow> \<not> x_doomed xs w v}"
  by (auto simp: xc_destroy_window_def Let_def x_parent_of_def x_exists_def x_doomed_def
           split: option.splits)

lemma xc_create_window_exists:
  "x_exists (fst (xc_create_window x y wd ht ovr xs)) v \<longleftrightarrow> v = xs_next_id xs \<or> x_exists xs v"
  by (simp add: x_exists_parent_of xc_create_window_server(3))

lemma xc_destroy_window_exists:
  "x_exists (fst (xc_destroy_window w xs)) v \<longleftrightarrow> x_exists xs v \<and> \<not> (x_exists xs w \<and> x_doomed xs w v)"
  by (simp add: x_exists_parent_of xc_destroy_window_server(3))

subsection \<open>The window manager's invariants under the other clients' requests\<close>

text \<open>A new top-level window is neither a client nor a frame, and a client destroying its
  own window destroys no frame: the registry invariants survive every request of the
  other clients.\<close>

lemma xc_create_window_inv:
  fixes x y wd ht :: int and ovr :: bool
  assumes rinv: "reg_tree_inv m xs" and sinv: "save_set_inv m xs"
  defines "xs' \<equiv> fst (xc_create_window x y wd ht ovr xs)"
  shows "reg_tree_inv m xs' \<and> save_set_inv m xs'"
proof -
  let ?n = "xs_next_id xs" and ?r = "xs_root xs"
  have wf: "xs_wf xs" using rinv by (simp add: reg_tree_inv_def)
  have rn: "?r < ?n" by (rule xs_wf_root_lt [OF wf])
  have P: "x_parent_of xs' = (x_parent_of xs)(?n \<mapsto> ?r)" "xs_root xs' = ?r" "xs_next_id xs' = Suc ?n"
      "xs_owned xs' = xs_owned xs" "xs_save_set xs' = xs_save_set xs"
    unfolding xs'_def by (simp_all add: xc_create_window_server)
  have E: "x_exists xs' v \<longleftrightarrow> v = ?n \<or> x_exists xs v" for v
    unfolding xs'_def by (rule xc_create_window_exists)
  have lt: "x_exists xs v \<Longrightarrow> v < ?n" for v using wf by (simp add: xs_wf_def)
  have plt: "x_parent_of xs v = Some p \<Longrightarrow> p < ?n" for v p using wf by (simp add: xs_wf_def)
  have "xs_wf xs'"
    unfolding xs_wf_def
  proof (intro conjI allI impI)
    show "x_parent_of xs' (xs_root xs') = Some 0" using wf rn by (simp add: P xs_wf_def)
    show "\<not> x_exists xs' 0" using wf rn by (simp add: E xs_wf_def)
  next
    fix v assume "x_exists xs' v"
    then show "v < xs_next_id xs'" by (auto simp: E P dest: lt)
  next
    fix v p assume "x_parent_of xs' v = Some p"
    then show "p < xs_next_id xs'" using rn by (auto simp: P split: if_splits dest: plt)
  qed
  then have wf': "xs_wf xs'" .
  have frames: "m c = Some f \<Longrightarrow> x_parent_of xs f = Some ?r" for c f
    using rinv unfolding reg_tree_inv_def by blast
  have fp: "x_parent_of xs' f = Some ?r" if h: "m c = Some f" for c f
  proof -
    have "f \<noteq> ?n" using frames [OF h] lt by (metis less_irrefl option.distinct(1) x_exists_parent_of)
    then show ?thesis using frames [OF h] by (simp add: P)
  qed
  have a: "\<forall>c f. m c = Some f \<longrightarrow> c < xs_next_id xs \<and> c \<noteq> ?r \<and> f \<noteq> ?r"
    and b: "inj_on m (dom m)" "dom m \<inter> ran m = {}"
    using rinv unfolding reg_tree_inv_def by blast+
  have a': "\<forall>c f. m c = Some f \<longrightarrow> c < xs_next_id xs' \<and> c \<noteq> ?r \<and> f \<noteq> ?r"
    using a by (simp add: P less_Suc_eq)
  have r': "reg_tree_inv m xs'"
    unfolding reg_tree_inv_def P(2) using wf' a' b fp by blast
  have so: "xs_owned xs = ran m"
    and s2: "\<And>c f. m c = Some f \<Longrightarrow> x_exists xs c \<Longrightarrow> c \<in> xs_save_set xs \<and> x_parent_of xs c = Some f"
    and s3: "\<And>v f. x_parent_of xs v = Some f \<Longrightarrow> f \<in> ran m \<Longrightarrow> m v = Some f"
    using sinv unfolding save_set_inv_def by blast+
  have rr: "?r \<notin> ran m" using a by (auto simp: ran_def)
  have c2: "c \<in> xs_save_set xs' \<and> x_parent_of xs' c = Some f"
    if h: "m c = Some f" "x_exists xs' c" for c f
  proof -
    have cn: "c \<noteq> ?n" using a h(1) by auto
    then have "x_exists xs c" using h(2) by (simp add: E)
    then show ?thesis using s2 [OF h(1)] cn by (simp add: P)
  qed
  have c3: "m v = Some f" if h: "x_parent_of xs' v = Some f" "f \<in> ran m" for v f
  proof (cases "v = ?n")
    case True
    then show ?thesis using h rr by (simp add: P)
  next
    case False
    then show ?thesis using h s3 by (simp add: P)
  qed
  have "save_set_inv m xs'"
    unfolding save_set_inv_def using so c2 c3 P(4) by blast
  then show ?thesis using r' by blast
qed

lemma xc_destroy_window_inv:
  assumes rinv: "reg_tree_inv m xs" and sinv: "save_set_inv m xs" and own: "xc_own xs w"
  defines "xs' \<equiv> fst (xc_destroy_window w xs)"
  shows "reg_tree_inv m xs' \<and> save_set_inv m xs'"
proof -
  let ?r = "xs_root xs"
  let ?d = "\<lambda>v. x_exists xs w \<and> x_doomed xs w v"
  have wf: "xs_wf xs" using rinv by (simp add: reg_tree_inv_def)
  have so: "xs_owned xs = ran m"
    and s2: "\<And>c f. m c = Some f \<Longrightarrow> x_exists xs c \<Longrightarrow> c \<in> xs_save_set xs \<and> x_parent_of xs c = Some f"
    and s3: "\<And>v f. x_parent_of xs v = Some f \<Longrightarrow> f \<in> ran m \<Longrightarrow> m v = Some f"
    using sinv unfolding save_set_inv_def by blast+
  have P: "x_parent_of xs' v = (if ?d v then None else x_parent_of xs v)" for v
    unfolding xs'_def by (rule xc_destroy_window_server(3))
  have S: "xs_root xs' = ?r" "xs_next_id xs' = xs_next_id xs"
      "xs_save_set xs' = {v \<in> xs_save_set xs. \<not> ?d v}" "xs_owned xs' = {v \<in> xs_owned xs. \<not> ?d v}"
    unfolding xs'_def by (simp_all add: xc_destroy_window_server)
  have E: "x_exists xs' v \<longleftrightarrow> x_exists xs v \<and> \<not> ?d v" for v
    unfolding xs'_def by (rule xc_destroy_window_exists)
  have w0: "x_exists xs w \<Longrightarrow> w \<noteq> 0" by (rule xs_wf_exists_nonzero [OF wf])
  have nr: "\<not> ?d ?r"
    using own wf w0 by (auto simp: x_doomed_parent xc_own_def xs_wf_def)
  have nf: "\<not> ?d f" if h: "f \<in> ran m" for f
  proof -
    obtain c where "m c = Some f" using h by (auto simp: ran_def)
    then have "x_parent_of xs f = Some ?r" using rinv unfolding reg_tree_inv_def by blast
    then show ?thesis using own h so by (auto simp: x_doomed_parent xc_own_def)
  qed
  have wf': "xs_wf xs'"
    using wf nr unfolding xs_wf_def S E by (auto simp: P)
  have fp: "x_parent_of xs' f = Some ?r" if h: "m c = Some f" for c f
  proof -
    have "f \<in> ran m" using h by (auto simp: ran_def)
    then have "x_parent_of xs' f = x_parent_of xs f" using nf by (simp only: P if_False)
    then show ?thesis using rinv h unfolding reg_tree_inv_def by simp
  qed
  have a: "\<forall>c f. m c = Some f \<longrightarrow> c < xs_next_id xs \<and> c \<noteq> ?r \<and> f \<noteq> ?r"
    and b: "inj_on m (dom m)" "dom m \<inter> ran m = {}"
    using rinv unfolding reg_tree_inv_def by blast+
  have r': "reg_tree_inv m xs'"
    unfolding reg_tree_inv_def S(1,2) using wf' a b fp by blast
  have o': "xs_owned xs' = ran m" using so nf by (auto simp: S)
  have c2: "c \<in> xs_save_set xs' \<and> x_parent_of xs' c = Some f"
    if h: "m c = Some f" "x_exists xs' c" for c f
  proof -
    have "x_exists xs c" "\<not> ?d c" using h(2) by (simp_all add: E)
    then show ?thesis using s2 [OF h(1)] by (simp add: S P)
  qed
  have c3: "m v = Some f" if h: "x_parent_of xs' v = Some f" "f \<in> ran m" for v f
  proof -
    have "x_parent_of xs v = Some f" using h(1) by (simp add: P split: if_splits)
    then show ?thesis using s3 h(2) by blast
  qed
  have "save_set_inv m xs'"
    unfolding save_set_inv_def using o' c2 c3 by blast
  then show ?thesis using r' by blast
qed

lemma xc_step_inv:
  assumes "reg_tree_inv m xs" "save_set_inv m xs"
  shows "reg_tree_inv m (fst (xc_step a xs)) \<and> save_set_inv m (fst (xc_step a xs))"
proof (cases a)
  case (XcCreate x y wd ht ovr)
  then show ?thesis using xc_create_window_inv [OF assms] by simp
next
  case (XcDestroy w)
  then show ?thesis using xc_destroy_window_inv [OF assms] assms by simp
qed (use assms xc_keeps_env reg_tree_inv_same_tree [OF _ x_same_env_tree] save_set_inv_same_env in auto)

subsection \<open>What a client's request shows the window manager\<close>

lemma xc_step_server:
  "xs_root (fst (xc_step a xs)) = xs_root xs \<and> xs_next_id xs \<le> xs_next_id (fst (xc_step a xs)) \<and>
   xs_owned (fst (xc_step a xs)) \<subseteq> xs_owned xs"
  using xc_keeps_env [where xs = xs] xc_create_window_server [where xs = xs]
    xc_destroy_window_server [where xs = xs]
  by (cases a) (auto simp: x_same_env_def x_same_tree_def)

text \<open>A \<open>MapRequest\<close> is queued only when a client maps its own unmapped window, which
  the request leaves unmapped.\<close>

lemma xc_step_map_request:
  assumes "xc_step a xs = (xs', evs)" "MapRequest w \<in> set evs"
  shows "a = XcMap w \<and> xs' = xs \<and> evs = [MapRequest w] \<and> xc_own xs w \<and> x_exists xs w \<and> \<not> x_mapped xs w"
  using assms
  by (cases a) (auto simp: xc_create_window_def xc_map_window_def xc_unmap_window_def
      xc_configure_window_def xc_destroy_window_def x_exists_def x_mapped_def Let_def
      split: option.splits if_splits)

text \<open>The window manager's top-level windows are not the clients' to touch.\<close>

lemma xc_step_owned:
  assumes "xc_step a xs = (xs', evs)" "v \<in> xs_owned xs" "v < xs_next_id xs"
    "x_parent_of xs v = Some (xs_root xs)"
  shows "xs_windows xs' v = xs_windows xs v"
  using assms
  by (cases a) (auto simp: xc_create_window_def xc_map_window_def xc_unmap_window_def xc_own_def
      xc_configure_window_def xc_destroy_window_def x_doomed_def x_parent_of_def Let_def
      split: option.splits if_splits)

lemma xc_step_exists:
  "x_exists (fst (xc_step a xs)) c \<Longrightarrow> c < xs_next_id xs \<Longrightarrow> x_exists xs c"
  by (cases a) (auto simp: xc_create_window_def xc_map_window_def xc_unmap_window_def
      xc_configure_window_def xc_destroy_window_def x_exists_def Let_def split: option.splits if_splits)

text \<open>A mapped window whose parent reports its children stays mapped, or its unmapping
  is queued.\<close>

lemma xc_step_unmap_reported:
  assumes "xc_step a xs = (xs', evs)" "x_parent_of xs c = Some f"
    "x_selects xs f SubstructureNotifyMask" "x_mapped xs c" "x_exists xs' c" "c < xs_next_id xs"
  shows "x_mapped xs' c \<or> UnmapNotify \<lparr>ue_event = f, ue_window = c\<rparr> \<in> set evs"
  using assms
  by (cases a) (auto simp: xc_create_window_def xc_map_window_def xc_unmap_window_def
      xc_configure_window_def xc_destroy_window_def x_mapped_def x_parent_of_def x_exists_def
      x_apply_changes_def Let_def split: option.splits if_splits)

end
