(* ===== verification/Owen_System.thy ===== *)
theory Owen_System
  imports Owen_C_Claims X_Clients
begin

text \<open>
  The C window manager together with its environment: the other clients act on their
  windows (\<open>X_Clients\<close>), the server appends the events it generates to the window
  manager's queue, and the window manager takes the events from the front of the queue
  (\<open>XNextEvent\<close>) and handles them (\<open>owen_handle_event\<close>), in any interleaving. Events
  the window manager's own requests generate are not queued: they are \<open>MapNotify\<close>,
  \<open>ReparentNotify\<close>, \<open>ConfigureNotify\<close>, \<open>DestroyNotify\<close> and \<open>UnmapNotify\<close>
  reported on the root, which \<open>owen_handle_event\<close> ignores, apart from the
  \<open>UnmapNotify\<close> of a client reparented out of a frame, which only the repeated
  \<open>MapRequest\<close> of \<open>owen_cpp_map_request_twice\<close> causes.

  The one assumption made of the clients is the one that theorem shows necessary: a
  client does not map a window again while its \<open>MapRequest\<close> is still queued. Under
  it, every \<open>MapRequest\<close> that reaches the front of the queue is for a window the
  window manager may take on (\<open>map_request_ok\<close>), so the invariants of
  \<open>Owen_C_Inv\<close> hold in every state of the system, not only along the event sequences
  \<open>owen_reachable\<close> allows.
\<close>

text \<open>The queued \<open>MapRequest\<close>s, read front to back: each names a window other than
  the root, allocated, not the window manager's, and not managed once the
  \<open>UnmapNotify\<close>s ahead of it are handled; no window has two.\<close>

fun queue_ok :: "(window \<rightharpoonup> window) \<Rightarrow> XServer \<Rightarrow> XEvent list \<Rightarrow> bool" where
  "queue_ok m xs [] = True"
| "queue_ok m xs (MapRequest w # q) =
     (w \<noteq> xs_root xs \<and> w < xs_next_id xs \<and> w \<notin> xs_owned xs \<and> m w = None \<and>
      MapRequest w \<notin> set q \<and> queue_ok m xs q)"
| "queue_ok m xs (UnmapNotify u # q) =
     queue_ok (if m (ue_window u) = Some (ue_event u) then m(ue_window u := None) else m) xs q"
| "queue_ok m xs (e # q) = queue_ok m xs q"

text \<open>The registry once the queued \<open>UnmapNotify\<close>s of clients reported on their frames
  are handled.\<close>

fun queue_reg :: "(window \<rightharpoonup> window) \<Rightarrow> XEvent list \<Rightarrow> window \<rightharpoonup> window" where
  "queue_reg m [] = m"
| "queue_reg m (UnmapNotify u # q) =
     queue_reg (if m (ue_window u) = Some (ue_event u) then m(ue_window u := None) else m) q"
| "queue_reg m (e # q) = queue_reg m q"

text \<open>Every existing client is mapped, or its unmapping is queued, reported on its frame;
  every frame reports its children's unmapping.\<close>

definition clients_shown :: "(window \<rightharpoonup> window) \<Rightarrow> XServer \<Rightarrow> XEvent list \<Rightarrow> bool" where
  "clients_shown m xs q \<longleftrightarrow>
     (\<forall>c f. m c = Some f \<longrightarrow> x_exists xs c \<longrightarrow>
        x_mapped xs c \<or> UnmapNotify \<lparr>ue_event = f, ue_window = c\<rparr> \<in> set q)"

definition frames_notify :: "(window \<rightharpoonup> window) \<Rightarrow> XServer \<Rightarrow> bool" where
  "frames_notify m xs \<longleftrightarrow> (\<forall>f \<in> ran m. x_selects xs f SubstructureNotifyMask)"

definition owen_sys_inv :: "Owen \<Rightarrow> XServer \<Rightarrow> XEvent list \<Rightarrow> bool" where
  "owen_sys_inv ow xs q \<longleftrightarrow>
     owen_inv ow xs \<and> save_set_inv (registry_of (screen ow)) xs \<and>
     queue_ok (registry_of (screen ow)) xs q \<and> clients_shown (registry_of (screen ow)) xs q \<and>
     frames_notify (registry_of (screen ow)) xs"

text \<open>The system: startup on a server where the window manager owns nothing, then
  requests of the other clients and events handled by the window manager, interleaved.\<close>

inductive owen_system :: "Owen \<Rightarrow> XServer \<Rightarrow> XEvent list \<Rightarrow> bool" where
  start: "xs_wf xs0 \<Longrightarrow> distinct (xs_stack xs0) \<Longrightarrow> xs_owned xs0 = {} \<Longrightarrow>
          owen_main (Some xs0) [] = Inr (ow, xs) \<Longrightarrow> owen_system ow xs []"
| client: "owen_system ow xs q \<Longrightarrow> (\<forall>w. a = XcMap w \<longrightarrow> MapRequest w \<notin> set q) \<Longrightarrow>
           xc_step a xs = (xs', evs) \<Longrightarrow> owen_system ow xs' (q @ evs)"
| wm: "owen_system ow xs (e # q) \<Longrightarrow> owen_handle_event e ow xs = Inr (ow', xs') \<Longrightarrow>
       owen_system ow' xs' q"

subsection \<open>The queue\<close>

lemma queue_ok_no_map_requests:
  "(\<forall>w. MapRequest w \<notin> set q) \<Longrightarrow> queue_ok m xs q"
  by (induction m xs q rule: queue_ok.induct) auto

lemma queue_ok_append:
  "queue_ok m xs (q @ q') \<longleftrightarrow>
     queue_ok m xs q \<and> queue_ok (queue_reg m q) xs q' \<and>
     (\<forall>w. MapRequest w \<in> set q \<longrightarrow> MapRequest w \<notin> set q')"
  by (induction m xs q rule: queue_ok.induct) auto

lemma queue_reg_le: "queue_reg m q \<subseteq>\<^sub>m m"
proof (induction m q rule: queue_reg.induct)
  case (2 m u q)
  have "(if m (ue_window u) = Some (ue_event u) then m(ue_window u := None) else m) \<subseteq>\<^sub>m m"
    by (auto simp: map_le_def)
  then show ?case using map_le_trans [OF 2] by simp
qed simp_all

lemma queue_reg_unmapped:
  "m w = Some f \<Longrightarrow> UnmapNotify \<lparr>ue_event = f, ue_window = w\<rparr> \<in> set q \<Longrightarrow> queue_reg m q w = None"
proof (induction m q rule: queue_reg.induct)
  case (2 m u q)
  let ?m1 = "if m (ue_window u) = Some (ue_event u) then m(ue_window u := None) else m"
  show ?case
  proof (cases "?m1 w = Some f")
    case True
    then have "u \<noteq> \<lparr>ue_event = f, ue_window = w\<rparr>" using 2(2) by auto
    then have "UnmapNotify \<lparr>ue_event = f, ue_window = w\<rparr> \<in> set q" using 2(3) by auto
    then show ?thesis using 2(1) [OF True] by simp
  next
    case False
    then have "?m1 w = None" using 2(2) by (auto split: if_splits)
    then show ?thesis using queue_reg_le [of ?m1 q] by (auto simp: map_le_def dom_def)
  qed
qed auto

text \<open>Entries the queue does not ask about, and a larger server, do not matter.\<close>

lemma queue_ok_le:
  "queue_ok m xs q \<Longrightarrow> m' \<subseteq>\<^sub>m m \<Longrightarrow> queue_ok m' xs q"
proof (induction m xs q arbitrary: m' rule: queue_ok.induct)
  case (3 m xs u q)
  let ?w = "ue_window u" and ?e = "ue_event u"
  let ?up = "\<lambda>m. if m ?w = Some ?e then m(?w := None) else m"
  have "?up m' \<subseteq>\<^sub>m ?up m"
    using 3(3) by (auto simp: map_le_def dom_def)
  then show ?case using 3 by simp
qed (auto simp: map_le_def dom_def)

lemma queue_ok_agree:
  "queue_ok m xs q \<Longrightarrow> (\<forall>v. MapRequest v \<in> set q \<longrightarrow> m' v = m v) \<Longrightarrow>
   (\<forall>v. m' v \<noteq> m v \<longrightarrow> m v = None) \<Longrightarrow> queue_ok m' xs q"
proof (induction m xs q arbitrary: m' rule: queue_ok.induct)
  case (3 m xs u q)
  let ?w = "ue_window u" and ?e = "ue_event u"
  let ?up = "\<lambda>m. if m ?w = Some ?e then m(?w := None) else m"
  have "\<forall>v. MapRequest v \<in> set q \<longrightarrow> ?up m' v = ?up m v"
    using 3(3) by auto
  moreover have "\<forall>v. ?up m' v \<noteq> ?up m v \<longrightarrow> ?up m v = None"
    using 3(4) by auto
  ultimately show ?case using 3 by simp
qed auto

lemma queue_ok_server:
  "queue_ok m xs q \<Longrightarrow> xs_root xs' = xs_root xs \<Longrightarrow> xs_next_id xs \<le> xs_next_id xs' \<Longrightarrow>
   (\<forall>v. v \<in> xs_owned xs' \<longrightarrow> v < xs_next_id xs \<longrightarrow> v \<in> xs_owned xs) \<Longrightarrow> queue_ok m xs' q"
  by (induction m xs q rule: queue_ok.induct) auto

subsection \<open>What the window manager's requests do to mapping and event selection\<close>

lemma x_mapped_ops:
  "x_mapped (x_select_input w m xs) = x_mapped xs"
  "x_mapped (x_grab_button w xs) = x_mapped xs"
  "x_mapped (x_add_to_save_set w xs) = x_mapped xs"
  "x_mapped (x_remove_from_save_set w xs) = x_mapped xs"
  "x_mapped (x_reparent_window w p x y xs) = x_mapped xs"
  "x_mapped (x_configure_window w m c xs) = x_mapped xs"
  "x_mapped (snd (x_get_window_attributes w xs)) = x_mapped xs"
  "v \<noteq> w \<Longrightarrow> x_mapped (x_map_window w xs) v = x_mapped xs v"
  "x_mapped (x_map_window w xs) w \<longleftrightarrow> x_exists xs w"
  "v \<noteq> xs_next_id xs \<Longrightarrow> x_mapped (snd (x_create_simple_window p x y wd ht bw bc bg xs)) v = x_mapped xs v"
  by (auto simp: x_mapped_def x_unfold x_apply_changes_def Let_def fun_eq_iff split: option.splits)

lemma x_selects_ops:
  "x_selects (x_grab_button w xs) = x_selects xs"
  "x_selects (x_add_to_save_set w xs) = x_selects xs"
  "x_selects (x_remove_from_save_set w xs) = x_selects xs"
  "x_selects (x_reparent_window w p x y xs) = x_selects xs"
  "x_selects (x_map_window w xs) = x_selects xs"
  "x_selects (x_unmap_window w xs) = x_selects xs"
  "x_selects (x_configure_window w m c xs) = x_selects xs"
  "x_selects (snd (x_get_window_attributes w xs)) = x_selects xs"
  "v \<noteq> w \<Longrightarrow> x_selects (x_select_input w m xs) v = x_selects xs v"
  "w \<noteq> xs_root xs \<Longrightarrow> x_exists xs w \<Longrightarrow> x_selects (x_select_input w m xs) w M \<longleftrightarrow> m AND M \<noteq> 0"
  "v \<noteq> xs_next_id xs \<Longrightarrow> x_selects (snd (x_create_simple_window p x y wd ht bw bc bg xs)) v = x_selects xs v"
  by (auto simp: x_selects_def x_unfold x_apply_changes_def Let_def fun_eq_iff split: option.splits)

lemma x_create_exists:
  "x_exists xs p \<Longrightarrow> x_exists (snd (x_create_simple_window p x y wd ht bw bc bg xs)) (xs_next_id xs)"
  by (simp add: x_create_simple_window_def x_log_def Let_def x_exists_def)

text \<open>\<open>owen_frame_create\<close> touches the client and the new frame only; it leaves the
  client's mapping as it was and has the frame report its children's unmapping.\<close>

lemma owen_frame_create_windows:
  assumes wf: "owen_screen_wf (screen ow)" and xwf: "xs_wf xs"
    and rt: "root ow = xs_root xs" and wn: "w \<noteq> xs_next_id xs"
    and run: "owen_frame_create w ow xs = Inr (ow', xs')"
  shows "\<forall>v. v \<noteq> w \<longrightarrow> v \<noteq> xs_next_id xs \<longrightarrow> xs_windows xs' v = xs_windows xs v"
    and "x_mapped xs' w = x_mapped xs w"
    and "x_selects xs' (xs_next_id xs) SubstructureNotifyMask"
proof -
  let ?n = "xs_next_id xs" and ?s = "screen ow"
  have room: "client_count ?s < int CLIENTS_CAPACITY" by (rule owen_frame_create_room [OF wf run])
  define C where "C = snd (x_create_simple_window (root ow) (pt_x (owen_frame_get_start_point ?s (client_count ?s)))
                (pt_y (owen_frame_get_start_point ?s (client_count ?s)))
                (owen_frame_get_width ?s) (owen_frame_get_height ?s) BORDER_WIDTH BORDER_COLOR BG_COLOR xs)"
  define X where "X = x_select_input ?n (SubstructureRedirectMask OR SubstructureNotifyMask) C"
  have xs': "xs' = x_map_window ?n (x_reparent_window w ?n 0 0 (x_add_to_save_set w X))"
    using run owen_frame_create_Inr [OF wf room, of w xs] unfolding X_def C_def by simp
  have ex: "x_exists xs (root ow)" using xs_wf_root_exists [OF xwf] rt by simp
  have cn: "x_exists C ?n" unfolding C_def by (rule x_create_exists [OF ex])
  have cr: "xs_root C = xs_root xs"
    unfolding C_def by (simp add: x_create_simple_window_def x_log_def x_error_def Let_def)
  have nr: "?n \<noteq> xs_root xs" using xs_wf_root_lt [OF xwf] by simp
  show "\<forall>v. v \<noteq> w \<longrightarrow> v \<noteq> ?n \<longrightarrow> xs_windows xs' v = xs_windows xs v"
    unfolding xs' X_def C_def by (simp add: x_windows_other)
  show "x_mapped xs' w = x_mapped xs w"
    unfolding xs' X_def C_def using wn by (simp add: x_mapped_ops)
  have "x_selects X ?n SubstructureNotifyMask"
    unfolding X_def using x_selects_ops(10) [OF _ cn] nr cr by (simp add: x_mask_defs)
  then show "x_selects xs' ?n SubstructureNotifyMask"
    unfolding xs' by (simp add: x_selects_ops)
qed

text \<open>Unframing touches the client, its frame and the frame's children only.\<close>

lemma owen_unframe_windows:
  assumes "v \<noteq> w" "v \<noteq> f" "x_parent_of xs v \<noteq> Some f"
  shows "xs_windows (x_destroy_window f (x_remove_from_save_set w
           (x_reparent_window w r 0 0 (x_unmap_window f xs)))) v = xs_windows xs v"
  using assms
  by (auto simp: x_destroy_window_def x_doomed_def x_windows_other x_log_def x_error_def Let_def
                 x_parent_of_def split: option.splits)

subsection \<open>The shown-client and notifying-frame conditions\<close>

lemma x_window_flags:
  "xs_windows xs' v = xs_windows xs v \<Longrightarrow>
   x_exists xs' v = x_exists xs v \<and> x_mapped xs' v = x_mapped xs v \<and> x_selects xs' v = x_selects xs v"
  by (simp add: x_exists_def x_mapped_def x_selects_def fun_eq_iff)

text \<open>Fewer clients, a server that kept their windows and the frames' selections, and a
  queue that kept the pending \<open>UnmapNotify\<close>s.\<close>

lemma shown_notify_mono:
  assumes cs: "clients_shown m xs q0" and fn: "frames_notify m xs" and le: "m' \<subseteq>\<^sub>m m"
    and cw: "\<forall>c \<in> dom m'. x_exists xs' c \<longrightarrow> x_exists xs c \<and> (x_mapped xs c \<longrightarrow> x_mapped xs' c)"
    and fw: "\<forall>f \<in> ran m'. x_selects xs f SubstructureNotifyMask \<longrightarrow> x_selects xs' f SubstructureNotifyMask"
    and qq: "\<forall>c f. m' c = Some f \<longrightarrow> UnmapNotify \<lparr>ue_event = f, ue_window = c\<rparr> \<in> set q0 \<longrightarrow>
               x_mapped xs' c \<or> UnmapNotify \<lparr>ue_event = f, ue_window = c\<rparr> \<in> set q"
  shows "clients_shown m' xs' q" and "frames_notify m' xs'"
proof -
  have mm: "m' c = Some f \<Longrightarrow> m c = Some f" for c f using le by (auto simp: map_le_def dom_def)
  show "clients_shown m' xs' q"
    unfolding clients_shown_def
  proof (intro allI impI)
    fix c f assume a: "m' c = Some f" "x_exists xs' c"
    then have "x_exists xs c" "x_mapped xs c \<longrightarrow> x_mapped xs' c" using cw by auto
    moreover have "x_mapped xs c \<or> UnmapNotify \<lparr>ue_event = f, ue_window = c\<rparr> \<in> set q0"
      using cs mm [OF a(1)] calculation(1) unfolding clients_shown_def by blast
    ultimately show "x_mapped xs' c \<or> UnmapNotify \<lparr>ue_event = f, ue_window = c\<rparr> \<in> set q"
      using qq a(1) by blast
  qed
  have "ran m' \<subseteq> ran m" using mm by (auto simp: ran_def)
  then show "frames_notify m' xs'" using fn fw unfolding frames_notify_def by blast
qed

lemma shown_notify_add:
  assumes "clients_shown m xs q" "frames_notify m xs"
    and "x_exists xs w \<longrightarrow> x_mapped xs w" "x_selects xs n SubstructureNotifyMask"
  shows "clients_shown (m(w \<mapsto> n)) xs q" and "frames_notify (m(w \<mapsto> n)) xs"
proof -
  have "ran (m(w \<mapsto> n)) \<subseteq> insert n (ran m)" by (auto simp: ran_def)
  then show "frames_notify (m(w \<mapsto> n)) xs" using assms(2,4) unfolding frames_notify_def by blast
  show "clients_shown (m(w \<mapsto> n)) xs q" using assms(1,3) unfolding clients_shown_def by auto
qed

lemma frames_exist:
  assumes "reg_tree_inv m xs" "f \<in> ran m"
  shows "x_parent_of xs f = Some (xs_root xs) \<and> f < xs_next_id xs"
proof -
  obtain c where "m c = Some f" using assms(2) by (auto simp: ran_def)
  then have p: "x_parent_of xs f = Some (xs_root xs)" using assms(1) by (simp add: reg_tree_inv_def)
  then have "x_exists xs f" by (simp add: x_exists_parent_of)
  then show ?thesis using p assms(1) by (simp add: reg_tree_inv_def xs_wf_def)
qed

lemma reg_windows_lt:
  assumes "reg_tree_inv m xs" "c \<in> dom m \<union> ran m"
  shows "c < xs_next_id xs"
proof (cases "c \<in> dom m")
  case True
  then obtain f where "m c = Some f" by auto
  then show ?thesis using assms(1) unfolding reg_tree_inv_def by blast
next
  case False
  then show ?thesis using frames_exist [OF assms(1)] assms(2) by blast
qed

text \<open>Requests on windows that are neither clients nor frames.\<close>

lemma shown_notify_outside:
  assumes cs: "clients_shown m xs q" and fn: "frames_notify m xs"
    and out: "\<forall>v. v \<notin> S \<longrightarrow> xs_windows xs' v = xs_windows xs v" and dj: "S \<inter> (dom m \<union> ran m) = {}"
  shows "clients_shown m xs' q" and "frames_notify m xs'"
proof -
  have fl: "x_exists xs' v = x_exists xs v \<and> x_mapped xs' v = x_mapped xs v \<and> x_selects xs' v = x_selects xs v"
    if "v \<in> dom m \<union> ran m" for v
    using x_window_flags [of xs' v xs] out dj that by blast
  have cw: "\<forall>c \<in> dom m. x_exists xs' c \<longrightarrow> x_exists xs c \<and> (x_mapped xs c \<longrightarrow> x_mapped xs' c)"
    using fl by simp
  have fw: "\<forall>f \<in> ran m. x_selects xs f SubstructureNotifyMask \<longrightarrow> x_selects xs' f SubstructureNotifyMask"
    using fl by simp
  have qq: "\<forall>c f. m c = Some f \<longrightarrow> UnmapNotify \<lparr>ue_event = f, ue_window = c\<rparr> \<in> set q \<longrightarrow>
              x_mapped xs' c \<or> UnmapNotify \<lparr>ue_event = f, ue_window = c\<rparr> \<in> set q"
    by simp
  show "clients_shown m xs' q" "frames_notify m xs'"
    using shown_notify_mono [OF cs fn map_le_refl cw fw qq] by simp_all
qed

lemma owen_frame_create_shown:
  assumes inv: "owen_inv ow xs" and ok: "map_request_ok ow xs w"
    and cs: "clients_shown (registry_of (screen ow)) xs q"
    and fn: "frames_notify (registry_of (screen ow)) xs"
    and run: "owen_frame_create w ow xs = Inr (ow', xs')"
  shows "clients_shown (registry_of (screen ow)) xs' q" "frames_notify (registry_of (screen ow)) xs'"
    "registry_of (screen ow') = (registry_of (screen ow))(w \<mapsto> xs_next_id xs)"
    "xs_next_id xs' = Suc (xs_next_id xs)" "xs_root xs' = xs_root xs"
    "x_mapped xs' w = x_mapped xs w" "x_selects xs' (xs_next_id xs) SubstructureNotifyMask"
proof -
  let ?m = "registry_of (screen ow)" and ?n = "xs_next_id xs"
  have wf: "owen_screen_wf (screen ow)" and rt: "root ow = xs_root xs"
    and rti: "reg_tree_inv ?m xs" and xwf: "xs_wf xs"
    using inv by (simp_all add: owen_inv_def reg_tree_inv_def)
  have fr: "w < ?n" "?m w = None" "w \<notin> ran ?m" using ok by (simp_all add: map_request_ok_def reg_fresh_def)
  note win = owen_frame_create_windows [OF wf xwf rt _ run]
  have dj: "{w, ?n} \<inter> (dom ?m \<union> ran ?m) = {}"
    using reg_windows_lt [OF rti] fr by blast
  show "clients_shown ?m xs' q" "frames_notify ?m xs'"
    using shown_notify_outside [OF cs fn _ dj] win(1) fr(1) by simp_all
  show "x_mapped xs' w = x_mapped xs w" "x_selects xs' ?n SubstructureNotifyMask"
    using win(2,3) fr(1) by simp_all
  have room: "client_count (screen ow) < int CLIENTS_CAPACITY" by (rule owen_frame_create_room [OF wf run])
  obtain ow1 xs1 where "owen_frame_create w ow xs = Inr (ow1, xs1)"
    "registry_of (screen ow1) = ?m(w \<mapsto> ?n)" "xs_next_id xs1 = Suc ?n" "xs_root xs1 = xs_root xs"
    by (rule owen_frame_create_effect [OF inv ok room]) blast
  then show "registry_of (screen ow') = ?m(w \<mapsto> ?n)" "xs_next_id xs' = Suc ?n" "xs_root xs' = xs_root xs"
    using run by simp_all
qed

text \<open>At startup, \<open>owen_frame\<close> takes on only a window that was mapped (viewable).\<close>

lemma owen_frame_reframed_viewable:
  assumes run: "owen_frame w True ow xs = Inr (ow', xs')"
  shows "(ow' = ow \<and> xs' = snd (x_get_window_attributes w xs)) \<or>
         (x_mapped xs w \<and> owen_frame_create w ow (snd (x_get_window_attributes w xs)) = Inr (ow', xs'))"
proof -
  obtain at xs0 where at: "x_get_window_attributes w xs = (at, xs0)"
    by (cases "x_get_window_attributes w xs")
  show ?thesis
  proof (cases at)
    case None
    then show ?thesis using run at by (simp add: owen_frame_def)
  next
    case (Some a)
    have "wa_map_state a = IsViewable \<Longrightarrow> x_mapped xs w"
      using at Some by (auto simp: x_get_window_attributes_def x_map_state_def x_mapped_def Let_def
                             split: option.splits if_splits)
    then show ?thesis
      using run at Some by (cases "wa_override_redirect a \<or> wa_map_state a \<noteq> IsViewable")
                           (auto simp: owen_frame_def)
  qed
qed

lemma owen_frame_reframed_shown:
  assumes inv: "owen_inv ow xs" and ok: "map_request_ok ow xs w"
    and cs: "clients_shown (registry_of (screen ow)) xs []"
    and fn: "frames_notify (registry_of (screen ow)) xs"
    and run: "owen_frame w True ow xs = Inr (ow', xs')"
  shows "clients_shown (registry_of (screen ow')) xs' [] \<and> frames_notify (registry_of (screen ow')) xs'"
proof -
  let ?m = "registry_of (screen ow)" and ?xs0 = "snd (x_get_window_attributes w xs)"
  have t0: "x_same_tree xs ?xs0" by (rule x_same_tree_ops)
  have cs0: "clients_shown ?m ?xs0 []" and fn0: "frames_notify ?m ?xs0"
    using shown_notify_outside [OF cs fn, of "{}" ?xs0] by (simp_all add: x_windows_other)
  consider (skip) "ow' = ow" "xs' = ?xs0"
    | (create) "x_mapped xs w" "owen_frame_create w ow ?xs0 = Inr (ow', xs')"
    using owen_frame_reframed_viewable [OF run] by blast
  then show ?thesis
  proof cases
    case skip
    then show ?thesis using cs0 fn0 by simp
  next
    case create
    note fcs = owen_frame_create_shown [OF owen_inv_same_tree [OF inv t0]
                 map_request_ok_same_tree [OF ok t0] cs0 fn0 create(2)]
    have "x_mapped xs' w" using fcs(6) create(1) by (simp add: x_mapped_ops)
    then show ?thesis using shown_notify_add [OF fcs(1,2), of w] fcs(3,7) by simp
  qed
qed

lemma owen_frame_all_shown:
  assumes "owen_inv ow xs" "clients_shown (registry_of (screen ow)) xs []"
    "frames_notify (registry_of (screen ow)) xs" "distinct tops"
    "\<forall>w \<in> set tops. map_request_ok ow xs w" "owen_frame_all tops ow xs = Inr (ow', xs')"
  shows "clients_shown (registry_of (screen ow')) xs' [] \<and> frames_notify (registry_of (screen ow')) xs'"
  using assms
proof (induction tops arbitrary: ow xs)
  case Nil
  then show ?case by simp
next
  case (Cons w tops)
  obtain ow1 xs1 where fr: "owen_frame w True ow xs = Inr (ow1, xs1)"
    and rest: "owen_frame_all tops ow1 xs1 = Inr (ow', xs')"
    using Cons.prems(6) by (auto split: sum.splits)
  have okw: "map_request_ok ow xs w" using Cons.prems(5) by simp
  have inv1: "owen_inv ow1 xs1" using owen_frame_reframed_step [OF Cons.prems(1) okw fr] by simp
  have sh: "clients_shown (registry_of (screen ow1)) xs1 []" "frames_notify (registry_of (screen ow1)) xs1"
    using owen_frame_reframed_shown [OF Cons.prems(1) okw Cons.prems(2,3) fr] by simp_all
  have "\<forall>v \<in> set tops. map_request_ok ow1 xs1 v"
    using owen_frame_reframed_fresh [OF Cons.prems(1) okw fr] Cons.prems(4,5) by auto
  then show ?case
    using Cons.IH [OF inv1 sh _ _ rest] Cons.prems(4) by simp
qed

lemma owen_startup_sys_inv:
  assumes wf: "xs_wf xs0" and dist: "distinct (xs_stack xs0)" and own: "xs_owned xs0 = {}"
    and run: "owen_main (Some xs0) [] = Inr (ow, xs)"
  shows "owen_sys_inv ow xs []"
proof -
  obtain ow1 xs2 tops xs3 where st: "owen_inv ow1 xs2" "registry_of (screen ow1) = Map.empty"
    "save_set_inv Map.empty xs2" "distinct tops" "\<forall>w \<in> set tops. map_request_ok ow1 xs2 w"
    "owen_frame_all tops ow1 xs2 = Inr (ow, xs3)" "xs = x_ungrab_server xs3"
    by (rule owen_startup_reframe [OF assms])
  have "clients_shown (registry_of (screen ow1)) xs2 []" "frames_notify (registry_of (screen ow1)) xs2"
    using st(2) by (simp_all add: clients_shown_def frames_notify_def)
  then have "clients_shown (registry_of (screen ow)) xs3 [] \<and> frames_notify (registry_of (screen ow)) xs3"
    using owen_frame_all_shown [OF st(1) _ _ st(4,5,6)] by simp
  then have "clients_shown (registry_of (screen ow)) xs [] \<and> frames_notify (registry_of (screen ow)) xs"
    using shown_notify_outside [of _ xs3 "[]" "{}" xs] st(7)
    by (simp add: x_ungrab_server_def x_log_def)
  then show ?thesis
    using owen_startup_inv [OF wf dist run] owen_startup_save_set [OF assms] by (simp add: owen_sys_inv_def)
qed

subsection \<open>The window manager's steps\<close>

lemma owen_sys_inv_map_request:
  assumes si: "owen_sys_inv ow xs (MapRequest w # q)"
    and run: "owen_handle_event (MapRequest w) ow xs = Inr (ow', xs')"
  shows "owen_sys_inv ow' xs' q"
proof -
  let ?m = "registry_of (screen ow)" and ?n = "xs_next_id xs"
  have inv: "owen_inv ow xs" and sinv: "save_set_inv ?m xs"
    and qk: "queue_ok ?m xs (MapRequest w # q)"
    and cs: "clients_shown ?m xs q" and fn: "frames_notify ?m xs"
    using si by (simp_all add: owen_sys_inv_def clients_shown_def)
  have qw: "w \<noteq> xs_root xs" "w < ?n" "w \<notin> xs_owned xs" "?m w = None" "MapRequest w \<notin> set q"
    "queue_ok ?m xs q"
    using qk by simp_all
  have own: "xs_owned xs = ran ?m" using sinv unfolding save_set_inv_def by blast
  have ok: "map_request_ok ow xs w"
    using qw own by (simp add: map_request_ok_def reg_fresh_def)
  then have ev: "owen_event_ok ow xs (MapRequest w)" by (simp add: owen_event_ok_def)
  have inv': "owen_inv ow' xs'" by (rule owen_inv_step [OF inv ev run])
  have sinv': "save_set_inv (registry_of (screen ow')) xs'" by (rule owen_save_set_step [OF inv sinv ev run])
  let ?xs0 = "snd (x_get_window_attributes w xs)"
  obtain xs1 where fc: "owen_frame_create w ow ?xs0 = Inr (ow', xs1)" and xs': "xs' = x_map_window w xs1"
    using run by (auto simp: x_on_map_request_frame_create split: sum.splits)
  have t0: "x_same_tree xs ?xs0" by (rule x_same_tree_ops)
  then have n0: "xs_next_id ?xs0 = ?n" "xs_root ?xs0 = xs_root xs" by (simp_all add: x_same_tree_def)
  have cs0: "clients_shown ?m ?xs0 q" and fn0: "frames_notify ?m ?xs0"
    using shown_notify_outside [OF cs fn, of "{}" ?xs0] by (simp_all add: x_windows_other)
  note fcs = owen_frame_create_shown [OF owen_inv_same_tree [OF inv t0] map_request_ok_same_tree [OF ok t0]
                                        cs0 fn0 fc]
  have dj: "{w} \<inter> (dom ?m \<union> ran ?m) = {}"
    using ok by (auto simp: map_request_ok_def reg_fresh_def)
  have sn: "clients_shown ?m xs' q" "frames_notify ?m xs'"
    using shown_notify_outside [OF fcs(1,2) _ dj] xs' by (simp_all add: x_windows_other)
  have "x_exists xs' w \<longrightarrow> x_mapped xs' w"
    using xs' x_mapped_ops(9) [of w xs1] x_same_tree_ops(5) [of xs1 w]
    by (simp add: x_same_tree_def x_exists_parent_of)
  moreover have "x_selects xs' ?n SubstructureNotifyMask"
    using fcs(7) n0 xs' by (simp add: x_selects_ops)
  moreover have reg: "registry_of (screen ow') = ?m(w \<mapsto> ?n)" and nx: "xs_next_id xs' = Suc ?n"
    and rt': "xs_root xs' = xs_root xs"
    using fcs(3,4,5) n0 xs' x_same_tree_ops(5) [of xs1 w] by (simp_all add: x_same_tree_def)
  ultimately have sn': "clients_shown (registry_of (screen ow')) xs' q"
    "frames_notify (registry_of (screen ow')) xs'"
    using shown_notify_add [OF sn] by simp_all
  have "queue_ok (?m(w \<mapsto> ?n)) xs q"
    using queue_ok_agree [OF qw(6)] qw(4,5) by auto
  moreover note rt'
  moreover have "v \<in> xs_owned xs" if "v \<in> xs_owned xs'" "v < ?n" for v
  proof -
    have "xs_owned xs' = ran (registry_of (screen ow'))" using sinv' unfolding save_set_inv_def by blast
    then show ?thesis using that own reg qw(4) by simp
  qed
  ultimately have "queue_ok (registry_of (screen ow')) xs' q"
    using queue_ok_server [of _ xs q xs'] nx reg by simp
  then show ?thesis using inv' sinv' sn' by (simp add: owen_sys_inv_def)
qed

text \<open>A step that keeps the registry, every window's existence, mapping and selection,
  and the server's ids, applied to an event other than \<open>UnmapNotify\<close>.\<close>

lemma owen_sys_inv_keep:
  assumes si: "owen_sys_inv ow xs (e # q)" and e: "\<forall>u. e \<noteq> UnmapNotify u" "\<forall>w. e \<noteq> MapRequest w"
    and inv': "owen_inv ow' xs'" and reg: "registry_of (screen ow') = registry_of (screen ow)"
    and env: "x_same_env xs xs'"
    and fl: "x_mapped xs' = x_mapped xs" "x_selects xs' = x_selects xs"
  shows "owen_sys_inv ow' xs' q"
proof -
  let ?m = "registry_of (screen ow)"
  have sinv: "save_set_inv ?m xs" and qk: "queue_ok ?m xs (e # q)"
    and cs: "clients_shown ?m xs (e # q)" and fn: "frames_notify ?m xs"
    using si by (simp_all add: owen_sys_inv_def)
  have sinv': "save_set_inv ?m xs'" by (rule save_set_inv_same_env [OF sinv env])
  have ex: "x_exists xs' = x_exists xs"
    using env by (simp add: x_same_env_def x_same_tree_def fun_eq_iff x_exists_parent_of)
  have "queue_ok ?m xs q" using qk e by (cases e) simp_all
  then have qk': "queue_ok ?m xs' q"
    using queue_ok_server [of ?m xs q xs'] env by (simp add: x_same_env_def x_same_tree_def)
  have "\<forall>c f. ?m c = Some f \<longrightarrow> UnmapNotify \<lparr>ue_event = f, ue_window = c\<rparr> \<in> set (e # q) \<longrightarrow>
               x_mapped xs' c \<or> UnmapNotify \<lparr>ue_event = f, ue_window = c\<rparr> \<in> set q"
    using e(1) by auto
  note sn = shown_notify_mono [OF cs fn map_le_refl _ _ this]
  have "clients_shown ?m xs' q" "frames_notify ?m xs'"
    using sn ex fl by simp_all
  then show ?thesis using inv' sinv' qk' reg by (simp add: owen_sys_inv_def)
qed

lemma x_on_configure_request_flags:
  "x_mapped (snd (x_on_configure_request c ow xs)) = x_mapped xs"
  "x_selects (snd (x_on_configure_request c ow xs)) = x_selects xs"
  "x_same_env xs (snd (x_on_configure_request c ow xs))"
  by (auto simp: x_on_configure_request_def Let_def x_mapped_ops x_selects_ops
           intro: x_same_env_trans x_same_env_ops(5))

lemma owen_sys_inv_unmap_notify:
  assumes si: "owen_sys_inv ow xs (UnmapNotify u # q)"
    and run: "owen_handle_event (UnmapNotify u) ow xs = Inr (ow', xs')"
  shows "owen_sys_inv ow' xs' q"
proof -
  let ?m = "registry_of (screen ow)" and ?w = "ue_window u"
  let ?m1 = "if ?m ?w = Some (ue_event u) then ?m(?w := None) else ?m"
  have inv: "owen_inv ow xs" and sinv: "save_set_inv ?m xs"
    and qk: "queue_ok ?m1 xs q"
    and cs: "clients_shown ?m xs (UnmapNotify u # q)" and fn: "frames_notify ?m xs"
    using si by (simp_all add: owen_sys_inv_def)
  have ev: "owen_event_ok ow xs (UnmapNotify u)" by (simp add: owen_event_ok_def)
  have inv': "owen_inv ow' xs'" by (rule owen_inv_step [OF inv ev run])
  have sinv': "save_set_inv (registry_of (screen ow')) xs'" by (rule owen_save_set_step [OF inv sinv ev run])
  have wf: "owen_screen_wf (screen ow)" and rt: "root ow = xs_root xs"
    and rti: "reg_tree_inv ?m xs" and xwf: "xs_wf xs"
    using inv by (simp_all add: owen_inv_def reg_tree_inv_def)
  have own: "xs_owned xs = ran ?m" using sinv unfolding save_set_inv_def by blast
  have own': "xs_owned xs' = ran (registry_of (screen ow'))" using sinv' unfolding save_set_inv_def by blast
  have fr: "f \<noteq> xs_root xs" if "?m c = Some f" for c f
    using rti that unfolding reg_tree_inv_def by blast
  show ?thesis
  proof (cases "?m ?w = None \<or> ue_event u = root ow")
    case True
    then have st: "ow' = ow" "xs' = xs"
      using x_on_unmap_notify_ignored [OF inv True] run by simp_all
    have m1: "?m1 = ?m" using True fr rt by auto
    have "\<forall>c f. ?m c = Some f \<longrightarrow> UnmapNotify \<lparr>ue_event = f, ue_window = c\<rparr> \<in> set (UnmapNotify u # q) \<longrightarrow>
               x_mapped xs c \<or> UnmapNotify \<lparr>ue_event = f, ue_window = c\<rparr> \<in> set q"
      using True fr rt by fastforce
    note sn = shown_notify_mono [OF cs fn map_le_refl _ _ this]
    have "clients_shown ?m xs q" "frames_notify ?m xs" using sn by simp_all
    then show ?thesis using inv sinv qk m1 st by (simp add: owen_sys_inv_def)
  next
    case False
    then obtain f where reg: "?m ?w = Some f" and er: "ue_event u \<noteq> root ow" by auto
    have fw: "?w < xs_next_id xs" "f < xs_next_id xs" "?w \<noteq> xs_root xs" "f \<noteq> xs_root xs"
      "x_parent_of xs f = Some (xs_root xs)"
      using reg_tree_inv_frames_fresh [OF rti reg] by simp_all
    have inj: "inj_on ?m (dom ?m)" and disj: "dom ?m \<inter> ran ?m = {}"
      using rti by (simp_all add: reg_tree_inv_def)
    have wf_ne: "?w \<noteq> f" using disj reg by (auto simp: ran_def)
    have st: "ow' = ow\<lparr>screen := owen_clients_delete ?w (screen ow)\<rparr>"
      "xs' = x_destroy_window f (x_remove_from_save_set ?w
                (x_reparent_window ?w (root ow) 0 0 (x_unmap_window f xs)))"
      using x_on_unmap_notify_unframe [OF inv reg refl er] run by simp_all
    have reg': "registry_of (screen ow') = ?m(?w := None)"
      using owen_clients_delete_registry(1) [OF wf] st(1) by simp
    have srv: "xs_root xs' = xs_root xs" "xs_next_id xs' = xs_next_id xs"
      using owen_unframe_server [OF xwf fw(5) fw(4) wf_ne] st(2) rt by simp_all
    have other: "xs_windows xs' v = xs_windows xs v" if "v \<noteq> ?w" "v \<noteq> f" "x_parent_of xs v \<noteq> Some f" for v
      using owen_unframe_windows [OF that] st(2) by simp
    have mf: "?m c \<noteq> Some f" if "c \<noteq> ?w" for c
      using inj reg that by (auto simp: inj_on_def dom_def)
    have cw: "\<forall>c \<in> dom (?m(?w := None)). x_exists xs' c \<longrightarrow> x_exists xs c \<and> (x_mapped xs c \<longrightarrow> x_mapped xs' c)"
    proof
      fix c assume c: "c \<in> dom (?m(?w := None))"
      then obtain fc where cfc: "?m c = Some fc" and cw: "c \<noteq> ?w" by (auto split: if_splits)
      have "c \<noteq> f" using disj reg cfc by (auto simp: ran_def)
      moreover have "x_parent_of xs c \<noteq> Some f"
        using sinv cfc mf [OF cw] unfolding save_set_inv_def x_exists_parent_of by fastforce
      ultimately show "x_exists xs' c \<longrightarrow> x_exists xs c \<and> (x_mapped xs c \<longrightarrow> x_mapped xs' c)"
        using x_window_flags [OF other [OF cw]] by simp
    qed
    have fw': "\<forall>g \<in> ran (?m(?w := None)). x_selects xs g SubstructureNotifyMask \<longrightarrow> x_selects xs' g SubstructureNotifyMask"
    proof
      fix g assume "g \<in> ran (?m(?w := None))"
      then obtain c where cg: "?m c = Some g" and cw: "c \<noteq> ?w" by (auto simp: ran_def split: if_splits)
      have "g \<noteq> ?w" using disj reg cg by (auto simp: ran_def)
      moreover have "g \<noteq> f" using mf [OF cw] cg by auto
      moreover have "x_parent_of xs g \<noteq> Some f"
        using frames_exist [OF rti ranI [of ?m c g, OF cg]] fw(4) by simp
      ultimately show "x_selects xs g SubstructureNotifyMask \<longrightarrow> x_selects xs' g SubstructureNotifyMask"
        using x_window_flags [OF other] by simp
    qed
    have "\<forall>c g. (?m(?w := None)) c = Some g \<longrightarrow> UnmapNotify \<lparr>ue_event = g, ue_window = c\<rparr> \<in> set (UnmapNotify u # q) \<longrightarrow>
               x_mapped xs' c \<or> UnmapNotify \<lparr>ue_event = g, ue_window = c\<rparr> \<in> set q"
      by auto
    moreover have "?m(?w := None) \<subseteq>\<^sub>m ?m" by (auto simp: map_le_def)
    ultimately have sn': "clients_shown (?m(?w := None)) xs' q" "frames_notify (?m(?w := None)) xs'"
      using shown_notify_mono [OF cs fn _ cw fw'] by blast+
    have "?m(?w := None) \<subseteq>\<^sub>m ?m1" by (auto simp: map_le_def)
    then have "queue_ok (?m(?w := None)) xs q" by (rule queue_ok_le [OF qk])
    moreover have "v \<in> xs_owned xs" if "v \<in> xs_owned xs'" for v
      using that own own' reg' by (auto simp: ran_def split: if_splits)
    ultimately have "queue_ok (?m(?w := None)) xs' q"
      using queue_ok_server [of _ xs q xs'] srv by simp
    then show ?thesis using inv' sinv' sn' reg' by (simp add: owen_sys_inv_def)
  qed
qed

lemma owen_sys_inv_wm:
  assumes si: "owen_sys_inv ow xs (e # q)" and run: "owen_handle_event e ow xs = Inr (ow', xs')"
  shows "owen_sys_inv ow' xs' q"
proof -
  have inv: "owen_inv ow xs" using si by (simp add: owen_sys_inv_def)
  show ?thesis
  proof (cases e)
    case (MapRequest w)
    then show ?thesis using owen_sys_inv_map_request si run by simp
  next
    case (UnmapNotify u)
    then show ?thesis using owen_sys_inv_unmap_notify si run by simp
  next
    case (ConfigureRequest c)
    then have ev: "owen_event_ok ow xs e" by (simp add: owen_event_ok_def)
    have st: "ow' = ow" "xs' = snd (x_on_configure_request c ow xs)"
      using run ConfigureRequest x_on_configure_request_tree [of c ow xs] by (auto simp: prod_eq_iff)
    show ?thesis
      using owen_sys_inv_keep [OF si _ _ owen_inv_step [OF inv ev run]] ConfigureRequest st
            x_on_configure_request_flags by simp
  qed (use si run owen_sys_inv_keep [of ow xs e q ow xs] inv in simp_all)
qed

subsection \<open>The other clients' steps\<close>

lemma owen_sys_inv_client:
  assumes si: "owen_sys_inv ow xs q" and nd: "\<forall>w. a = XcMap w \<longrightarrow> MapRequest w \<notin> set q"
    and st: "xc_step a xs = (xs', evs)"
  shows "owen_sys_inv ow xs' (q @ evs)"
proof -
  let ?m = "registry_of (screen ow)"
  have inv: "owen_inv ow xs" and sinv: "save_set_inv ?m xs" and qk: "queue_ok ?m xs q"
    and cs: "clients_shown ?m xs q" and fn: "frames_notify ?m xs"
    using si by (simp_all add: owen_sys_inv_def)
  have wf: "owen_screen_wf (screen ow)" and rt: "root ow = xs_root xs"
    and rti: "reg_tree_inv ?m xs" and xwf: "xs_wf xs"
    using inv by (simp_all add: owen_inv_def reg_tree_inv_def)
  have own: "xs_owned xs = ran ?m" using sinv unfolding save_set_inv_def by blast
  have xs': "fst (xc_step a xs) = xs'" using st by simp
  have srv: "xs_root xs' = xs_root xs" "xs_next_id xs \<le> xs_next_id xs'" "xs_owned xs' \<subseteq> xs_owned xs"
    using xc_step_server [of a xs] xs' by simp_all
  have ti: "reg_tree_inv ?m xs'" "save_set_inv ?m xs'" using xc_step_inv [OF rti sinv, of a] xs' by simp_all
  have inv': "owen_inv ow xs'" using wf rt srv(1) ti(1) by (simp add: owen_inv_def)
  have q1: "queue_ok ?m xs' q" using queue_ok_server [OF qk srv(1,2)] srv(3) by blast
  have q2: "queue_ok (queue_reg ?m q) xs' evs \<and> (\<forall>w. MapRequest w \<in> set q \<longrightarrow> MapRequest w \<notin> set evs)"
  proof (cases "\<exists>w. MapRequest w \<in> set evs")
    case False
    then show ?thesis using queue_ok_no_map_requests by blast
  next
    case True
    then obtain w where "MapRequest w \<in> set evs" by blast
    note mr = xc_step_map_request [OF st this]
    have "queue_reg ?m q w = None"
    proof (cases "?m w")
      case None
      then show ?thesis using queue_reg_le [of ?m q] by (auto simp: map_le_def dom_def)
    next
      case (Some f)
      then have "UnmapNotify \<lparr>ue_event = f, ue_window = w\<rparr> \<in> set q"
        using cs mr unfolding clients_shown_def by blast
      then show ?thesis using queue_reg_unmapped [of ?m w f q] Some by simp
    qed
    moreover have "w < xs_next_id xs" using mr xwf by (simp add: xs_wf_def)
    ultimately show ?thesis using mr nd by (auto simp: xc_own_def)
  qed
  have qk': "queue_ok ?m xs' (q @ evs)" using queue_ok_append q1 q2 by simp
  have frame: "xs_windows xs' f = xs_windows xs f" if "f \<in> ran ?m" for f
    using xc_step_owned [OF st] frames_exist [OF rti that] own that by simp
  have fn': "frames_notify ?m xs'"
    using fn x_window_flags [OF frame] unfolding frames_notify_def by simp
  have cs': "clients_shown ?m xs' (q @ evs)"
    unfolding clients_shown_def
  proof (intro allI impI)
    fix c f assume cf: "?m c = Some f" and ex': "x_exists xs' c"
    have lt: "c < xs_next_id xs" using rti cf unfolding reg_tree_inv_def by blast
    then have ex: "x_exists xs c" using xc_step_exists [of a xs c] ex' xs' by simp
    have par: "x_parent_of xs c = Some f" using sinv cf ex unfolding save_set_inv_def by blast
    have sel: "x_selects xs f SubstructureNotifyMask" using fn cf unfolding frames_notify_def by (blast intro: ranI)
    have "x_mapped xs c \<or> UnmapNotify \<lparr>ue_event = f, ue_window = c\<rparr> \<in> set q"
      using cs cf ex unfolding clients_shown_def by blast
    then show "x_mapped xs' c \<or> UnmapNotify \<lparr>ue_event = f, ue_window = c\<rparr> \<in> set (q @ evs)"
      using xc_step_unmap_reported [OF st par sel _ ex' lt] by auto
  qed
  show ?thesis using inv' ti(2) qk' cs' fn' by (simp add: owen_sys_inv_def)
qed

subsection \<open>Every state of the system\<close>

lemma owen_system_sys_inv: "owen_system ow xs q \<Longrightarrow> owen_sys_inv ow xs q"
proof (induction rule: owen_system.induct)
  case (start xs0 ow xs)
  then show ?case by (rule owen_startup_sys_inv)
next
  case (client ow xs q a xs' evs)
  then show ?case using owen_sys_inv_client by blast
next
  case (wm ow xs e q ow' xs')
  then show ?case using owen_sys_inv_wm by blast
qed

lemma owen_sys_inv_head_ok:
  assumes "owen_sys_inv ow xs (e # q)"
  shows "owen_event_ok ow xs e"
proof (cases e)
  case (MapRequest w)
  have "xs_owned xs = ran (registry_of (screen ow))"
    using assms unfolding owen_sys_inv_def save_set_inv_def by blast
  then show ?thesis
    using assms MapRequest by (simp add: owen_sys_inv_def owen_event_ok_def map_request_ok_def reg_fresh_def)
qed (simp_all add: owen_event_ok_def)

text \<open>On the demonstration display, after startup, the client of window 3 maps it: the
  root is redirected to the window manager, so the server queues a \<open>MapRequest\<close>.\<close>

lemma demo_client_map:
  "\<exists>ow xs. owen_main (Some demo_server) [] = Inr (ow, xs) \<and> xc_step (XcMap 3) xs = (xs, [MapRequest 3])"
  by (simp add: demo_eval xc_own_def xc_map_window_def x_selects_def fun_eq_iff)

lemma demo_system:
  obtains ow xs where "owen_system ow xs [MapRequest 3]" "owen_inv ow xs" "root ow = 1"
    "registry_of (screen ow) = [2 \<mapsto> 10]" "client_count (screen ow) = 1" "xs_root xs = 1"
    "xs_next_id xs = 11" "x_exists xs 3"
proof -
  obtain ow xs where run: "owen_main (Some demo_server) [] = Inr (ow, xs)"
    and st: "xc_step (XcMap 3) xs = (xs, [MapRequest 3])"
    using demo_client_map by blast
  have f: "root ow = 1" "registry_of (screen ow) = [2 \<mapsto> 10]" "client_count (screen ow) = 1"
    "xs_root xs = 1" "xs_next_id xs = 11" "xs_windows xs 3 = Some (demo_win 1 False)"
    using demo_boot run by auto
  have inv: "owen_inv ow xs" by (rule owen_startup_inv [OF demo_server_wf(1,2) run])
  have "owen_system ow xs []" by (rule owen_system.start [OF demo_server_wf run])
  then have "owen_system ow xs ([] @ [MapRequest 3])" by (rule owen_system.client [OF _ _ st]) simp
  then show ?thesis using that inv f by (simp add: x_exists_def)
qed

text \<open>C4: Whatever the other clients do, in every state of the system the window manager's
  invariants hold (registry and window tree, save set and owned windows), and the event at
  the front of its queue is one its handlers may take: a \<open>MapRequest\<close> there names a
  window that is neither a client nor a frame.\<close>

theorem owen_system_invariant:
  assumes "owen_system ow xs q"
  shows "owen_inv ow xs \<and> save_set_inv (registry_of (screen ow)) xs \<and>
         (\<forall>e q'. q = e # q' \<longrightarrow> owen_event_ok ow xs e)"
  using owen_system_sys_inv [OF assms] owen_sys_inv_head_ok by (auto simp: owen_sys_inv_def)

text \<open>C5: In every state of the system, with room in the client array, the window manager
  handles the event at the front of its queue without aborting, and the system goes on.\<close>

theorem owen_system_progress:
  assumes sys: "owen_system ow xs (e # q)" and room: "client_count (screen ow) < int CLIENTS_CAPACITY"
  shows "\<exists>ow' xs'. owen_handle_event e ow xs = Inr (ow', xs') \<and> owen_system ow' xs' q"
proof -
  have "owen_inv ow xs" using owen_system_sys_inv [OF sys] by (simp add: owen_sys_inv_def)
  then show ?thesis
    using owen_handle_event_Inr [OF _ room, of xs e] owen_system.wm [OF sys] by fastforce
qed

text \<open>C6: In every state of the system, whatever the other clients did, closing the window
  manager's connection restores every existing client to the root at its frame's position,
  mapped, destroys every frame and keeps every other window.\<close>

theorem owen_system_crash_safe:
  assumes sys: "owen_system ow xs q"
  shows "(\<forall>c f. registry_of (screen ow) c = Some f \<longrightarrow> x_exists xs c \<longrightarrow>
            (\<exists>u0 p u. xs_windows xs c = Some u0 \<and> xs_windows xs f = Some p \<and>
               xs_windows (owen_destroy ow xs) c = Some u \<and> xw_parent u = xs_root xs \<and> xw_mapped u \<and>
               xw_x u = xw_x p + xw_border_width p + xw_x u0 \<and>
               xw_y u = xw_y p + xw_border_width p + xw_y u0)) \<and>
         (\<forall>f \<in> ran (registry_of (screen ow)). \<not> x_exists (owen_destroy ow xs) f) \<and>
         (\<forall>v. x_exists xs v \<and> v \<notin> ran (registry_of (screen ow)) \<longrightarrow> x_exists (owen_destroy ow xs) v)"
proof -
  have "reg_tree_inv (registry_of (screen ow)) xs" "save_set_inv (registry_of (screen ow)) xs"
    using owen_system_sys_inv [OF sys] by (simp_all add: owen_sys_inv_def owen_inv_def)
  then show ?thesis using x_close_display_safe by (simp add: owen_destroy_def)
qed

theorem owen_system_invariant_witness:
  "\<exists>ow xs. owen_system ow xs [MapRequest 3] \<and> owen_inv ow xs \<and>
     save_set_inv (registry_of (screen ow)) xs \<and> owen_event_ok ow xs (MapRequest 3)"
proof -
  obtain ow xs where sys: "owen_system ow xs [MapRequest 3]" by (rule demo_system)
  then show ?thesis using owen_system_invariant [OF sys] by blast
qed

theorem owen_system_progress_witness:
  "\<exists>ow xs ow' xs'. owen_system ow xs [MapRequest 3] \<and> client_count (screen ow) < int CLIENTS_CAPACITY \<and>
     owen_handle_event (MapRequest 3) ow xs = Inr (ow', xs') \<and> owen_system ow' xs' []"
proof -
  obtain ow xs where sys: "owen_system ow xs [MapRequest 3]" and c: "client_count (screen ow) = 1"
    by (rule demo_system)
  have room: "client_count (screen ow) < int CLIENTS_CAPACITY" using c by (simp add: CLIENTS_CAPACITY_def)
  show ?thesis using owen_system_progress [OF sys room] sys room by blast
qed

theorem owen_system_crash_safe_witness:
  "\<exists>ow xs. owen_system ow xs [] \<and> registry_of (screen ow) 3 = Some 11 \<and>
     (\<exists>u. xs_windows (owen_destroy ow xs) 3 = Some u \<and> xw_parent u = 1 \<and> xw_mapped u) \<and>
     \<not> x_exists (owen_destroy ow xs) 11"
proof -
  obtain ow xs where sys: "owen_system ow xs [MapRequest 3]" and inv: "owen_inv ow xs"
    and f: "root ow = 1" "registry_of (screen ow) = [2 \<mapsto> 10]" "client_count (screen ow) = 1"
      "xs_root xs = 1" "xs_next_id xs = 11" "x_exists xs 3"
    by (rule demo_system)
  have ok: "map_request_ok ow xs 3" using f by (simp add: map_request_ok_def reg_fresh_def)
  have room: "client_count (screen ow) < int CLIENTS_CAPACITY" using f by (simp add: CLIENTS_CAPACITY_def)
  obtain ow' xs' where run: "owen_handle_event (MapRequest 3) ow xs = Inr (ow', xs')"
    and reg: "registry_of (screen ow') = [2 \<mapsto> 10, 3 \<mapsto> 11]"
    and par: "x_parent_of xs' 3 = Some 11" and rt: "root ow' = 1" and inv': "owen_inv ow' xs'"
    by (rule owen_map_request_effect [OF inv ok room]) (use f in auto)
  have sys': "owen_system ow' xs' []" by (rule owen_system.wm [OF sys run])
  have ex: "x_exists xs' 3" using par by (simp add: x_exists_parent_of)
  have r1: "xs_root xs' = 1" using inv' rt by (simp add: owen_inv_def)
  note c = owen_system_crash_safe [OF sys']
  have "\<exists>u. xs_windows (owen_destroy ow' xs') 3 = Some u \<and> xw_parent u = 1 \<and> xw_mapped u"
    using c reg ex r1 by fastforce
  moreover have "\<not> x_exists (owen_destroy ow' xs') 11" using c reg by auto
  moreover have "registry_of (screen ow') 3 = Some 11" using reg by simp
  ultimately show ?thesis using sys' by blast
qed

end
