(* ===== verification/Spec2Isabelle.thy ===== *)
theory Spec2Isabelle
  imports Owen_Cpp_Claims Owen_System
begin

text \<open>
  \<^bold>\<open>Owen\<close>, a minimal reparenting window manager for X11 (repository toothynom/Owen),
  in a shallow embedding. The repository holds two implementations of one design:
  \<open>src/owen.c\<close> (plain C, a fixed client array) and \<open>src/owen.cpp\<close> with
  \<open>src/owen.hpp\<close> (C++, a \<open>std::unordered_map\<close> registry, a drag controller, glog
  \<open>CHECK\<close>s). Both are modelled completely, from their entry points down to every
  call into Xlib, against one model of the display gateway, so that they can be
  compared on the same server states.

  \<^bold>\<open>Parts and how they interact.\<close> The event dispatcher (\<open>owen_run\<close>) reads events
  and calls the handlers; the handlers use the framing engine (\<open>owen_frame\<close>,
  \<open>owen_unframe\<close>), which asks the layout engine for a frame rectangle, sends requests
  to the display gateway (Xlib and the X server) and records the client/frame pair in
  the client registry. The startup guard (\<open>owen_init\<close>) claims substructure
  redirection on the root and the re-scan (\<open>owen_reframe\<close>) frames the windows that
  existed before. In the C++ version the same parts are member functions of
  \<open>WindowManager\<close> (\<open>Run\<close>, \<open>Frame\<close>, \<open>Unframe\<close>, the \<open>On...\<close> handlers) and a
  fourth part, the drag controller (\<open>OnButtonPress\<close>, \<open>OnMotionNotify\<close>), moves a
  frame with the pointer; \<open>Run\<close> coalesces the queued motion events of a window.
  Around the window manager, the other clients of the display act on their own windows;
  the X server redirects their map and configure requests on top-level windows to the
  window manager and reports the unmapping of its frames' children, appending the
  events to the queue the dispatcher reads.

  \<^bold>\<open>Theories.\<close>
  \<^item> \<open>Owen_Prelude\<close>: the window type, the error values (every abort and every undefined
    behaviour of the code is an \<open>Inl\<close> of \<open>wm_error\<close>), generic lemmas on association
    lists, list updates and partial maps as bijections.
  \<^item> \<open>XServer\<close>: the display gateway, modelled from the Xlib contract since it is not
    code of the repository: a record \<open>XServer\<close> (window table, stacking order, save set,
    the windows the connection owns, next resource id, grab flag, pending protocol
    errors, request log) and one operation per Xlib call the window manager makes
    (\<open>x_create_simple_window\<close>, \<open>x_reparent_window\<close>, \<open>x_destroy_window\<close>, ...,
    \<open>x_sync\<close>, which hands the queued errors to the installed handler, and
    \<open>x_close_display\<close>, the close-down of the connection: save-set windows inside
    owned windows go back to their grandparent at the same screen position and are
    mapped, then the owned windows are destroyed). Lemmas: every call keeps the window tree except
    creation, reparenting and destruction, whose effect on the parent map is stated
    exactly, and every call appends its request to the log.
  \<^item> \<open>Registry_C\<close>: \<open>Client\<close> and \<open>OwenScreen\<close> of \<open>owen.c\<close> as records, the array of
    256 entries as a list of that length with the live prefix \<open>client_count\<close>;
    \<open>owen_clients_add\<close>, \<open>owen_clients_get_index\<close> and \<open>owen_clients_delete\<close> (swap
    with the last live entry) with their loops as terminating \<open>function\<close>s. Lemmas: the
    loops equal reference definitions; the registry abstraction \<open>registry_of\<close> (a
    partial map client to frame) refines the abstract registry of spec section 4.1
    under every sequence of operations within its contract.
  \<^item> \<open>Layout\<close>: \<open>owen_frame_get_width\<close>, \<open>_height\<close>, \<open>_start_point\<close> with C's
    truncating division (\<open>sdiv\<close>); they equal the layout table of spec section 4.2,
    stay on the screen, and the third frame overlaps the second.
  \<^item> \<open>Owen_C\<close>: the \<open>Owen\<close> state, the two error handlers, \<open>owen_frame\<close> (split at the
    attribute check into \<open>owen_frame_create\<close>), \<open>owen_unframe\<close>, the three handlers,
    \<open>owen_init\<close>, \<open>owen_reframe\<close> (with its loop \<open>owen_frame_all\<close>),
    \<open>owen_handle_event\<close>, \<open>owen_run\<close>, \<open>owen_destroy\<close> (\<open>XCloseDisplay\<close>) and
    \<open>main\<close> as \<open>owen_main\<close>. Each calls the
    gateway operations in the order of the source, so the request log is the trace of
    the program.
  \<^item> \<open>Registry_Tree\<close>: the interface between a registry (a partial map client to
    frame, which both implementations keep) and the window tree: \<open>reg_tree_inv\<close>
    (registry a bijection, clients and frames disjoint, frames children of the root,
    the server well-formed) and \<open>reg_fresh\<close> (a window the registry may take on).
    Lemmas: the framing sequence (create under the root, save set, reparent, map)
    and the unframing sequence (unmap, reparent to the root, save set, destroy), as
    both implementations send them, keep the invariant; \<open>XQueryTree\<close> on the root
    returns distinct fresh windows. Both invariants below are instances of it.
  \<^item> \<open>Save_Set\<close>: crash safety. \<open>save_set_inv\<close> relates a registry to the server's
    record of the connection: the owned windows are exactly the frames, every existing
    client is in the save set and a child of its frame, and a frame's only child is its
    client. Lemmas: requests that keep the connection's resources keep it, the framing
    and unframing sequences keep it, and under it and \<open>reg_tree_inv\<close> the close-down
    returns every client to the root where it was on the screen, destroys every frame
    and no other window (\<open>x_close_display_safe\<close>).
  \<^item> \<open>Owen_C_Inv\<close>: the invariant \<open>owen_inv\<close> (\<open>reg_tree_inv\<close> of the live
    prefix, the array well-formed, the root the server's), the step relation \<open>owen_reachable\<close> (startup, then any handled
    event the server can deliver) and the proofs by rule induction that the invariant
    and \<open>save_set_inv\<close> hold in every reachable state.
  \<^item> \<open>Owen_C_Claims\<close>: the behaviour of each handler on every branch (requests sent,
    registry change, the abort branches), the startup handshake, the re-scan under
    the server grab, progress of the dispatcher, with witnesses on a demonstration
    display.
    A second group proves that a mapped-then-unmapped client leaves the window tree
    as it was (round trip), that \<open>client_count\<close> stays a valid bound of the array, and
    that from every reachable state all clients can be released (liveness), and that
    closing the connection in any reachable state restores every client (crash
    safety, \<open>owen_crash_safe\<close>).
  \<^item> \<open>X_Clients\<close>: the other clients, modelled from the X protocol since they are
    not code of the repository: their requests (\<open>XcCreate\<close>, \<open>XcMap\<close>,
    \<open>XcUnmap\<close>, \<open>XcConfigure\<close>, \<open>XcDestroy\<close>) on windows they own, each returning
    the new server and the events queued for the window manager: a \<open>MapRequest\<close> or
    \<open>ConfigureRequest\<close> when the window manager holds substructure redirection on the
    window's parent, otherwise the change and a notification where it selected
    substructure notification. Lemmas: the requests keep \<open>reg_tree_inv\<close> and
    \<open>save_set_inv\<close> of any registry, never touch the window manager's windows, queue a
    \<open>MapRequest\<close> only for an unmapped window of their own, and report the unmapping
    of a child of a notifying window.
  \<^item> \<open>Owen_System\<close>: the C window manager composed with its environment, the
    inductive \<open>owen_system\<close> on (state, server, event queue): startup, then client
    requests (appending their events) and handled events (taken from the front of
    the queue) in any interleaving. The invariant \<open>owen_sys_inv\<close> adds to
    \<open>owen_inv\<close> and \<open>save_set_inv\<close> that the queued \<open>MapRequest\<close>s name windows
    the registry does not hold once the queued unmappings are handled
    (\<open>queue_ok\<close>), that every existing client is mapped or its \<open>UnmapNotify\<close> is
    queued (\<open>clients_shown\<close>), and that every frame reports its child's unmapping
    (\<open>frames_notify\<close>). It holds in every state (rule induction, one lemma per
    kind of step), so the assumption \<open>owen_reachable\<close> makes of a \<open>MapRequest\<close> is a
    theorem of the system, the window manager never aborts with room in its array,
    and the close-down restores every client whatever the other clients did.
  \<^item> \<open>Owen_Cpp\<close>: class \<open>WindowManager\<close> of \<open>owen.hpp\<close> as the record \<open>CppWM\<close>
    (registry \<open>clients_\<close> as a partial map, the six drag \<open>int\<close>s as \<open>int option\<close>,
    \<open>None\<close> while indeterminate), \<open>operator[]\<close> as \<open>cpp_index\<close> (an absent key is
    inserted with frame \<open>0\<close>), every member function of \<open>owen.cpp\<close> (the destructor
    \<open>cpp_destroy\<close>, \<open>cpp_frame\<close>,
    \<open>cpp_unframe\<close>, the handlers, \<open>OnWMDetected\<close>), \<open>Run\<close> split into
    \<open>cpp_run_init\<close> and the event loop \<open>cpp_run\<close> with its motion-coalescing loop
    (\<open>cpp_coalesce_motion\<close> over \<open>XCheckTypedWindowEvent\<close>). C++ \<open>int\<close>
    arithmetic leaving the 32-bit range is the \<open>SignedOverflow\<close> error, a read of an
    indeterminate \<open>int\<close> is \<open>UninitialisedRead\<close>, a failed \<open>CHECK\<close> is
    \<open>CheckFailed\<close>.
  \<^item> \<open>Owen_Cpp_Inv\<close>: the invariant \<open>cpp_inv\<close> (\<open>reg_tree_inv\<close> of \<open>clients_\<close>),
    the step relation \<open>cpp_reachable\<close> (\<open>Create\<close> and the startup of \<open>Run\<close>, then
    any handled event the server delivers to this client: \<open>cpp_event_ok\<close>, which
    asks of clicks and motion that they come from a managed client, as the passive
    grab of \<open>Frame\<close> ensures) and the proofs by rule induction that it and
    \<open>save_set_inv\<close> hold in every reachable state; \<open>Run\<close>'s startup is one scan lemma
    (\<open>cpp_run_init_scan\<close>) that both proofs use.
  \<^item> \<open>Owen_Cpp_Claims\<close>: the C and C++ handlers agree on registry and window tree for
    every map, unmap and configure request (a simulation under \<open>owen_cpp_corr\<close> on
    two servers with the same window tree, one step and then whole queues of the two
    event loops; on the demonstration display both startups build the same tree); where they differ (frame placement, a vanished client, the
    handshake) and what a repeated \<open>MapRequest\<close> does to each; the drag (displacement, no overflow on protocol coordinates);
    coalescing (equivalent to handling the last queued motion event, and giving the
    same windows as handling each); the registry
    corruption that \<open>operator[]\<close> causes on clicks and motion outside clients; in
    every reachable state \<open>clients_\<close> is a bijection without the phantom frame \<open>0\<close>,
    and every deliverable event other than motion is handled without abort; mapping,
    dragging and unmapping a window through the event loop is a round trip on
    \<open>clients_\<close> and the window tree; the destructor, or the process dying, in any
    reachable state restores every client (\<open>cpp_crash_safe\<close>).
  \<^item> this theory: the root of the development; it imports every theory above.

  \<^bold>\<open>Bounds and termination.\<close> The registry loops run over \<open>[i, client_count)\<close> and
  terminate by the measure \<open>client_count - i\<close>; the re-scans are structural recursions
  over the list \<open>XQueryTree\<close> returned; the coalescing loop and the C++ event loop
  terminate by the length of the event queue, which every iteration shortens. Both
  event loops never return in the code; the model runs them on a finite queue, which is
  every behaviour that can be observed, so no fuel is needed. The C client array has 256
  entries (\<open>CLIENTS_CAPACITY\<close>); the 257th \<open>MapRequest\<close> is the overflow branch. C
  \<open>int\<close> screen sizes are modelled as \<open>int\<close>: the layout only halves and divides them.
  The C++ drag arithmetic is checked against the 32-bit range; it cannot overflow on
  the 16-bit coordinates of the X protocol (\<open>x_coord_ok\<close>). Event masks are
  \<open>64 word\<close> (C \<open>long\<close>), the pointer state a \<open>32 word\<close> (C \<open>unsigned int\<close>).

  \<^bold>\<open>Not modelled.\<close> Logging (\<open>LOG\<close> streams and \<open>XDisplayName\<close>), which only
  performs I/O; the cursor (\<open>XCreateFontCursor\<close>, \<open>XDefineCursor\<close>), which no
  policy reads; \<open>XFree\<close> of the \<open>XQueryTree\<close> result. Outside \<open>Owen_System\<close> the
  events are the input of the dispatchers: every theorem there holds for every event
  sequence, or states the one assumption made of a \<open>MapRequest\<close>, that it names a
  window not yet managed, which a client mapping its window twice violates, with the
  consequences \<open>owen_cpp_map_request_twice\<close> states. \<open>Owen_System\<close> derives that
  assumption from the server's event generation, under the one assumption it makes of
  the other clients: a client does not map a window again while its \<open>MapRequest\<close>
  is queued. The events the window manager's own requests generate are not queued
  there: the handlers ignore all of them (notifications, and \<open>UnmapNotify\<close>
  reported on the root) but the one a repeated \<open>MapRequest\<close> causes. Clients create
  top-level windows only, and the C++ window manager is not composed with the
  clients. Not modelled either: the
  truncation of coordinates to 16 bits on the wire, which the drag claims avoid by
  their range hypothesis; windows nested deeper than a frame; events that arrive while
  the coalescing loop runs (the loop sees the queue as it is when it starts); other
  clients' connections and their save sets (the close-down handles the window
  manager's own). \<open>main\<close> in \<open>owen.c\<close> calls \<open>owen_destroy\<close> only after
  \<open>owen_run\<close>, which never returns; the crash-safety theorems state the close-down for
  every reachable state, which is what the process dying at that point does.\<close>

end
